theory Spec2Isabelle
  imports Main
begin

section \<open>Python values, exceptions and the dynamic operations the service uses\<close>

text \<open>
  A Python \<open>str\<close> is a sequence of Unicode code points and a \<open>bytes\<close> object a sequence of
  numbers below 256; both are lists of naturals.  \<open>S\<close> turns an ASCII literal of the source
  into such a list.
\<close>

type_synonym pystr = "nat list"
type_synonym pybytes = "nat list"

definition S :: "string \<Rightarrow> pystr" where
  "S s = map of_char s"

text \<open>
  What \<open>response.json()\<close> hands to the service: decoded JSON.  Numbers are integers here
  (every number the modelled code reads is a count, a size or a dimension); a dict is an
  association list in insertion order, read by its first binding of a key.
\<close>

datatype json =
    JNull
  | JBool bool
  | JInt int
  | JStr pystr
  | JList "json list"
  | JObj "(pystr \<times> json) list"

text \<open>
  Exceptions are values.  \<open>Raised tag\<close> is an exception of class \<open>Exception\<close> raised by a
  collaborator (the session, the response decoder, the retry handler), named by a tag.
  \<open>KeyboardInterrupt\<close> and \<open>SystemExit\<close> derive from \<open>BaseException\<close> only, so a clause
  \<open>except Exception\<close> does not catch them.
\<close>

datatype error =
    KeyError
  | TypeError
  | AttributeError
  | IndexError
  | ValueError
  | BinasciiError
  | UnicodeDecodeError
  | OverflowError
  | Raised string
  | KeyboardInterrupt
  | SystemExit

text \<open>\<open>isinstance(ex, Exception)\<close>: what \<open>except Exception\<close> catches.\<close>

fun is_Exception :: "error \<Rightarrow> bool" where
  "is_Exception KeyboardInterrupt = False"
| "is_Exception SystemExit = False"
| "is_Exception _ = True"

definition bind :: "error + 'a \<Rightarrow> ('a \<Rightarrow> error + 'b) \<Rightarrow> error + 'b" where
  "bind m f = (case m of Inl e \<Rightarrow> Inl e | Inr v \<Rightarrow> f v)"

text \<open>\<open>obj[key]\<close> with a string key: only a dict can be subscripted by a string.\<close>

fun getitem :: "json \<Rightarrow> pystr \<Rightarrow> error + json" where
  "getitem (JObj kvs) k = (case map_of kvs k of None \<Rightarrow> Inl KeyError | Some v \<Rightarrow> Inr v)"
| "getitem _ k = Inl TypeError"

text \<open>\<open>obj[i]\<close> with a non-negative integer index.\<close>

fun getitem_int :: "json \<Rightarrow> nat \<Rightarrow> error + json" where
  "getitem_int (JList xs) i = (if i < length xs then Inr (xs ! i) else Inl IndexError)"
| "getitem_int (JStr s) i = (if i < length s then Inr (JStr [s ! i]) else Inl IndexError)"
| "getitem_int (JObj kvs) i = Inl KeyError"
| "getitem_int _ i = Inl TypeError"

text \<open>A chain of string subscripts, \<open>obj[k1][k2]...\<close>, left to right.\<close>

fun path :: "json \<Rightarrow> pystr list \<Rightarrow> error + json" where
  "path j [] = Inr j"
| "path j (k # ks) = bind (getitem j k) (\<lambda>v. path v ks)"

fun startswith :: "pystr \<Rightarrow> pystr \<Rightarrow> bool" where
  "startswith [] s = True"
| "startswith (p # ps) [] = False"
| "startswith (p # ps) (c # cs) = (p = c \<and> startswith ps cs)"

text \<open>\<open>substring p s\<close>: \<open>p\<close> occurs in \<open>s\<close>, that is \<open>s.find(p) > -1\<close>.\<close>

fun substring :: "pystr \<Rightarrow> pystr \<Rightarrow> bool" where
  "substring p [] = (p = [])"
| "substring p (c # cs) = (startswith p (c # cs) \<or> substring p cs)"

definition endswith :: "pystr \<Rightarrow> pystr \<Rightarrow> bool" where
  "endswith suffix s = startswith (rev suffix) (rev s)"

text \<open>\<open>key in obj\<close> for a string key.\<close>

fun contains :: "pystr \<Rightarrow> json \<Rightarrow> error + bool" where
  "contains k (JObj kvs) = Inr (k \<in> set (map fst kvs))"
| "contains k (JList xs) = Inr (JStr k \<in> set xs)"
| "contains k (JStr s) = Inr (substring k s)"
| "contains k _ = Inl TypeError"

text \<open>\<open>obj.get(key)\<close>: a dict method; the default is \<open>None\<close>.\<close>

fun py_get :: "json \<Rightarrow> pystr \<Rightarrow> error + json" where
  "py_get (JObj kvs) k = Inr (case map_of kvs k of None \<Rightarrow> JNull | Some v \<Rightarrow> v)"
| "py_get _ k = Inl AttributeError"

text \<open>Truth value of an object in a condition.\<close>

fun truthy :: "json \<Rightarrow> bool" where
  "truthy JNull = False"
| "truthy (JBool b) = b"
| "truthy (JInt n) = (n \<noteq> 0)"
| "truthy (JStr s) = (s \<noteq> [])"
| "truthy (JList xs) = (xs \<noteq> [])"
| "truthy (JObj kvs) = (kvs \<noteq> [])"

text \<open>
  Keys of a Python dict: lists and dicts are unhashable, and \<open>True\<close>/\<open>False\<close> are the
  keys \<open>1\<close>/\<open>0\<close>.
\<close>

fun hashable :: "json \<Rightarrow> bool" where
  "hashable (JList xs) = False"
| "hashable (JObj kvs) = False"
| "hashable _ = True"

fun py_key :: "json \<Rightarrow> json" where
  "py_key (JBool b) = JInt (if b then 1 else 0)"
| "py_key j = j"

text \<open>\<open>d[k] = v\<close> on an insertion-ordered dict: overwrite in place, or append.\<close>

fun dict_set :: "('k \<times> 'v) list \<Rightarrow> 'k \<Rightarrow> 'v \<Rightarrow> ('k \<times> 'v) list" where
  "dict_set [] k v = [(k, v)]"
| "dict_set ((k', v') # d) k v = (if k' = k then (k, v) # d else (k', v') # dict_set d k v)"

section \<open>Library codecs: base64 and UTF-8\<close>

text \<open>
  \<open>base64.b64decode(s)\<close> on a \<open>str\<close>: a non-ASCII string is a \<open>ValueError\<close>; then
  \<open>binascii.a2b_base64\<close> in its default, non-strict mode.  \<open>b64_value\<close> is its table
  \<open>table_a2b_base64\<close>; \<open>a2b_loop\<close> is its loop over the input with the state
  \<open>quad_pos\<close>, \<open>leftchar\<close>, \<open>pads\<close> and the output so far: characters outside the
  alphabet are skipped, a complete pad sequence ends the input, and input ending inside
  a quad is \<open>binascii.Error\<close>.
\<close>

definition b64_value :: "nat \<Rightarrow> nat option" where
  "b64_value c =
     (if 65 \<le> c \<and> c \<le> 90 then Some (c - 65)
      else if 97 \<le> c \<and> c \<le> 122 then Some (c - 71)
      else if 48 \<le> c \<and> c \<le> 57 then Some (c + 4)
      else if c = 43 then Some 62
      else if c = 47 then Some 63
      else None)"

fun a2b_loop :: "nat \<Rightarrow> nat \<Rightarrow> nat \<Rightarrow> pybytes \<Rightarrow> pystr \<Rightarrow> error + pybytes" where
  "a2b_loop quad_pos leftchar pads out [] =
     (if quad_pos \<noteq> 0 then Inl BinasciiError else Inr out)"
| "a2b_loop quad_pos leftchar pads out (c # cs) =
     (if c = 61 then
        (if quad_pos \<ge> 2 \<and> quad_pos + (pads + 1) \<ge> 4 then Inr out
         else a2b_loop quad_pos leftchar (if quad_pos \<ge> 2 then pads + 1 else pads) out cs)
      else
        (case b64_value c of
           None \<Rightarrow> a2b_loop quad_pos leftchar pads out cs
         | Some v \<Rightarrow>
             (if quad_pos = 0 then a2b_loop 1 v 0 out cs
              else if quad_pos = 1 then
                a2b_loop 2 (v mod 16) 0 (out @ [leftchar * 4 + v div 16]) cs
              else if quad_pos = 2 then
                a2b_loop 3 (v mod 4) 0 (out @ [leftchar * 16 + v div 4]) cs
              else a2b_loop 0 0 0 (out @ [leftchar * 64 + v]) cs)))"

definition b64decode :: "pystr \<Rightarrow> error + pybytes" where
  "b64decode s = (if \<exists>c \<in> set s. c \<ge> 128 then Inl ValueError else a2b_loop 0 0 0 [] s)"

text \<open>
  \<open>bytes.decode('utf-8')\<close> with the default strict error handling: shortest-form
  sequences only, no surrogates, nothing above U+10FFFF.
\<close>

definition cont :: "nat \<Rightarrow> bool" where
  "cont b = (128 \<le> b \<and> b \<le> 191)"

fun utf8_decode :: "pybytes \<Rightarrow> error + pystr" where
  "utf8_decode [] = Inr []"
| "utf8_decode (b0 # bs) =
     (if b0 < 128 then bind (utf8_decode bs) (\<lambda>t. Inr (b0 # t))
      else if 194 \<le> b0 \<and> b0 \<le> 223 then
        (case bs of
           b1 # r \<Rightarrow>
             (if cont b1
              then bind (utf8_decode r) (\<lambda>t. Inr (((b0 - 192) * 64 + (b1 - 128)) # t))
              else Inl UnicodeDecodeError)
         | _ \<Rightarrow> Inl UnicodeDecodeError)
      else if 224 \<le> b0 \<and> b0 \<le> 239 then
        (case bs of
           b1 # b2 # r \<Rightarrow>
             (if cont b1 \<and> cont b2 \<and> (b0 = 224 \<longrightarrow> 160 \<le> b1) \<and> (b0 = 237 \<longrightarrow> b1 \<le> 159)
              then bind (utf8_decode r)
                     (\<lambda>t. Inr (((b0 - 224) * 4096 + (b1 - 128) * 64 + (b2 - 128)) # t))
              else Inl UnicodeDecodeError)
         | _ \<Rightarrow> Inl UnicodeDecodeError)
      else if 240 \<le> b0 \<and> b0 \<le> 244 then
        (case bs of
           b1 # b2 # b3 # r \<Rightarrow>
             (if cont b1 \<and> cont b2 \<and> cont b3
                 \<and> (b0 = 240 \<longrightarrow> 144 \<le> b1) \<and> (b0 = 244 \<longrightarrow> b1 \<le> 143)
              then bind (utf8_decode r)
                     (\<lambda>t. Inr (((b0 - 240) * 262144 + (b1 - 128) * 4096
                                 + (b2 - 128) * 64 + (b3 - 128)) # t))
              else Inl UnicodeDecodeError)
         | _ \<Rightarrow> Inl UnicodeDecodeError)
      else Inl UnicodeDecodeError)"






section \<open>Regular expressions and string methods of the source\<close>

text \<open>The character class \<open>[0-9a-zA-Z]\<close>.\<close>

definition alnum :: "nat \<Rightarrow> bool" where
  "alnum c = ((48 \<le> c \<and> c \<le> 57) \<or> (97 \<le> c \<and> c \<le> 122) \<or> (65 \<le> c \<and> c \<le> 90))"

text \<open>\<open>re.sub('[^0-9a-zA-Z]', '_', s)\<close>: every character outside the class becomes \<open>_\<close>.\<close>

definition sub_non_alnum :: "pystr \<Rightarrow> pystr" where
  "sub_non_alnum s = map (\<lambda>c. if alnum c then c else 95) s"

text \<open>
  \<open>re.sub('\.[^.]+$', repl, s)\<close>: the leftmost match of a dot followed by one or more
  characters that are not dots, up to the end of the string, is replaced by \<open>repl\<close>
  (a literal here).  Only the last dot of \<open>s\<close> can start a match, and it does when
  something follows it; a string with no such suffix is returned as it is.
\<close>

fun sub_ext :: "pystr \<Rightarrow> pystr \<Rightarrow> pystr" where
  "sub_ext repl [] = []"
| "sub_ext repl (c # cs) =
     (if c = 46 \<and> cs \<noteq> [] \<and> 46 \<notin> set cs then repl else c # sub_ext repl cs)"

text \<open>
  \<open>s.lower()\<close>, on the letters A to Z.  The source uses it only to test
  \<open>endswith('.heic')\<close>, and no character outside ASCII lowers to one of \<open>.heic\<close>.
\<close>

definition lower :: "pystr \<Rightarrow> pystr" where
  "lower s = map (\<lambda>c. if 65 \<le> c \<and> c \<le> 90 then c + 32 else c) s"

section \<open>PhotoAsset\<close>

text \<open>
  The attributes \<open>_master_record\<close>, \<open>_asset_record\<close> and \<open>_versions\<close> of a
  \<open>PhotoAsset\<close> (the service handle is used by \<open>download\<close> and \<open>delete\<close> only, to reach
  the session).  \<open>PhotoAsset\<close> is \<open>__init__\<close>.
\<close>

record photo_asset =
  master_record :: json
  asset_record :: json
  versions_attr :: json

definition PhotoAsset :: "json \<Rightarrow> json \<Rightarrow> photo_asset" where
  "PhotoAsset master asset =
     \<lparr>master_record = master, asset_record = asset, versions_attr = JNull\<rparr>"

definition ITEM_TYPES :: "(pystr \<times> pystr) list" where
  "ITEM_TYPES =
     [(S ''public.heic'', S ''image''),
      (S ''public.jpeg'', S ''image''),
      (S ''public.png'', S ''image''),
      (S ''com.compuserve.gif'', S ''image''),
      (S ''com.apple.quicktime-movie'', S ''movie''),
      (S ''public.mpeg-4'', S ''movie''),
      (S ''com.apple.m4v-video'', S ''movie''),
      (S ''com.microsoft.bmp'', S ''image''),
      (S ''com.adobe.raw-image'', S ''image''),
      (S ''public.3gpp'', S ''movie''),
      (S ''public.avi'', S ''movie''),
      (S ''public.mpeg'', S ''movie'')]"

definition ITEM_TYPE_EXTENSIONS :: "(pystr \<times> pystr) list" where
  "ITEM_TYPE_EXTENSIONS =
     [(S ''public.heic'', S ''HEIC''),
      (S ''public.jpeg'', S ''JPG''),
      (S ''public.png'', S ''PNG''),
      (S ''com.apple.quicktime-movie'', S ''MOV''),
      (S ''public.mpeg-4'', S ''MP4''),
      (S ''com.apple.m4v-video'', S ''M4V''),
      (S ''com.microsoft.bmp'', S ''BMP''),
      (S ''public.3gpp'', S ''3GP''),
      (S ''public.avi'', S ''AVI''),
      (S ''public.mpeg'', S ''MPG'')]"

definition PHOTO_VERSION_LOOKUP :: "(pystr \<times> pystr) list" where
  "PHOTO_VERSION_LOOKUP =
     [(S ''original'', S ''resOriginal''),
      (S ''medium'', S ''resJPEGMed''),
      (S ''thumb'', S ''resJPEGThumb''),
      (S ''originalVideo'', S ''resOriginalVidCompl''),
      (S ''mediumVideo'', S ''resVidMed''),
      (S ''thumbVideo'', S ''resVidSmall'')]"

definition VIDEO_VERSION_LOOKUP :: "(pystr \<times> pystr) list" where
  "VIDEO_VERSION_LOOKUP =
     [(S ''original'', S ''resOriginal''),
      (S ''medium'', S ''resVidMed''),
      (S ''thumb'', S ''resVidSmall'')]"

text \<open>
  \<open>table[tag] if tag in table else 'unknown'\<close> for a tag read from a record: an
  unhashable tag is a \<open>TypeError\<close>, a tag that is not a string is in no table.
\<close>

definition lookup_tag :: "(pystr \<times> pystr) list \<Rightarrow> json \<Rightarrow> error + pystr" where
  "lookup_tag table tag =
     (if \<not> hashable tag then Inl TypeError
      else (case tag of
              JStr s \<Rightarrow> (case map_of table s of Some r \<Rightarrow> Inr r | None \<Rightarrow> Inr (S ''unknown''))
            | _ \<Rightarrow> Inr (S ''unknown'')))"

definition id' :: "photo_asset \<Rightarrow> error + json" where
  "id' e = getitem (master_record e) (S ''recordName'')"

definition item_type :: "photo_asset \<Rightarrow> error + pystr" where
  "item_type e =
     bind (path (master_record e) [S ''fields'', S ''itemType'', S ''value''])
       (lookup_tag ITEM_TYPES)"

definition item_type_extension :: "photo_asset \<Rightarrow> error + pystr" where
  "item_type_extension e =
     bind (path (master_record e) [S ''fields'', S ''itemType'', S ''value''])
       (lookup_tag ITEM_TYPE_EXTENSIONS)"

text \<open>
  The name when the record has no \<open>filenameEnc\<close> value:
  \<open>re.sub('[^0-9a-zA-Z]', '_', self.id)[0:12]\<close> joined by a dot with
  \<open>self.item_type_extension\<close>.
\<close>

definition synthetic_filename :: "photo_asset \<Rightarrow> error + pystr" where
  "synthetic_filename e =
     bind (id' e) (\<lambda>i.
       case i of
         JStr s \<Rightarrow>
           bind (item_type_extension e) (\<lambda>ext. Inr (take 12 (sub_non_alnum s) @ [46] @ ext))
       | _ \<Rightarrow> Inl TypeError)"

definition filename :: "photo_asset \<Rightarrow> error + pystr" where
  "filename e =
     bind (getitem (master_record e) (S ''fields'')) (\<lambda>fields.
     bind (contains (S ''filenameEnc'') fields) (\<lambda>has_enc.
     bind (if has_enc
           then bind (getitem fields (S ''filenameEnc'')) (contains (S ''value''))
           else Inr False) (\<lambda>has_value.
     if has_value then
       bind (path fields [S ''filenameEnc'', S ''value'']) (\<lambda>v.
         case v of
           JStr s \<Rightarrow>
             (if substring (S ''.png'') s then Inr s
              else if substring (S ''.dng'') s then Inr s
              else if substring (S ''.mp4'') s then Inr s
              else if substring (S ''.gif'') s then Inr s
              else bind (b64decode s) utf8_decode)
         | _ \<Rightarrow> Inl AttributeError)
     else synthetic_filename e)))"

text \<open>
  The body of the loop of \<open>versions\<close> for one table entry whose \<open>Res\<close> field is in the
  record.  \<open>entry_value\<close> is \<open>entry["value"] if entry else None\<close>; \<open>version_dict\<close> is
  the version dict the body has built when it ends, with its keys in the order the
  source inserts them and the file name after the rule for live photos.
\<close>

definition entry_value :: "json \<Rightarrow> error + json" where
  "entry_value entry = (if truthy entry then getitem entry (S ''value'') else Inr JNull)"

definition version_dict ::
  "pystr \<Rightarrow> pystr \<Rightarrow> json \<Rightarrow> json \<Rightarrow> json \<Rightarrow> json \<Rightarrow> json \<Rightarrow> json" where
  "version_dict fn kind width height sz url ty =
     JObj
       [(S ''filename'',
           JStr (if kind = S ''image'' \<and> ty = JStr (S ''com.apple.quicktime-movie'')
                 then (if endswith (S ''.heic'') (lower fn)
                       then sub_ext (S ''_HEVC.MOV'') fn
                       else sub_ext (S ''.MOV'') fn)
                 else fn)),
        (S ''width'', width),
        (S ''height'', height),
        (S ''size'', sz),
        (S ''url'', url),
        (S ''type'', ty)]"

definition build_version :: "photo_asset \<Rightarrow> pystr \<Rightarrow> error + json" where
  "build_version e prefix =
     bind (getitem (master_record e) (S ''fields'')) (\<lambda>fields.
     bind (filename e) (\<lambda>fn.
     bind (bind (py_get fields (prefix @ S ''Width'')) entry_value) (\<lambda>width.
     bind (bind (py_get fields (prefix @ S ''Height'')) entry_value) (\<lambda>height.
     bind (py_get fields (prefix @ S ''Res'')) (\<lambda>size_entry.
     bind (if truthy size_entry then path size_entry [S ''value'', S ''size'']
           else Inr JNull) (\<lambda>sz.
     bind (if truthy size_entry then path size_entry [S ''value'', S ''downloadURL'']
           else Inr JNull) (\<lambda>url.
     bind (bind (py_get fields (prefix @ S ''FileType'')) entry_value) (\<lambda>ty.
     bind (item_type e) (\<lambda>kind.
       Inr (version_dict fn kind width height sz url ty))))))))))"

text \<open>\<open>self._versions[key] = version\<close>; \<open>_versions\<close> is a dict whenever the loop runs.\<close>

fun store_version :: "json \<Rightarrow> pystr \<Rightarrow> json \<Rightarrow> json" where
  "store_version (JObj d) key v = JObj (dict_set d key v)"
| "store_version j key v = j"

text \<open>
  The loop \<open>for key, prefix in typed_version_lookup.items()\<close>.  It writes each version
  into \<open>self._versions\<close> as it goes, so the entity is threaded through, and an exception
  leaves the entity as it is at that point.
\<close>

fun versions_loop :: "photo_asset \<Rightarrow> (pystr \<times> pystr) list \<Rightarrow> error option \<times> photo_asset" where
  "versions_loop e [] = (None, e)"
| "versions_loop e ((key, prefix) # rest) =
     (case bind (getitem (master_record e) (S ''fields'')) (contains (prefix @ S ''Res'')) of
        Inl err \<Rightarrow> (Some err, e)
      | Inr False \<Rightarrow> versions_loop e rest
      | Inr True \<Rightarrow>
          (case build_version e prefix of
             Inl err \<Rightarrow> (Some err, e)
           | Inr v \<Rightarrow>
               versions_loop (e\<lparr>versions_attr := store_version (versions_attr e) key v\<rparr>) rest))"

text \<open>
  The property \<open>versions\<close>: the value returned or the exception raised, and the entity
  after the access.
\<close>

definition versions :: "photo_asset \<Rightarrow> (error + json) \<times> photo_asset" where
  "versions e =
     (if truthy (versions_attr e) then (Inr (versions_attr e), e)
      else
        (let e0 = e\<lparr>versions_attr := JObj []\<rparr> in
         case item_type e0 of
           Inl err \<Rightarrow> (Inl err, e0)
         | Inr kind \<Rightarrow>
             (case versions_loop e0
                     (if kind = S ''movie'' then VIDEO_VERSION_LOOKUP else PHOTO_VERSION_LOOKUP) of
                (Some err, e1) \<Rightarrow> (Inl err, e1)
              | (None, e1) \<Rightarrow> (Inr (versions_attr e1), e1))))"

text \<open>
  \<open>download(version)\<close>: it returns \<open>None\<close>, or it hands the \<open>url\<close> of the version to
  \<open>session.get\<close> and returns what that returns (\<open>SessionGet url\<close>: the one retrieval
  request), or it raises.
\<close>

datatype download_result = ReturnNone | SessionGet json | DownloadRaise error

definition download :: "photo_asset \<Rightarrow> pystr \<Rightarrow> download_result \<times> photo_asset" where
  "download e version =
     (case versions e of
        (Inl err, e1) \<Rightarrow> (DownloadRaise err, e1)
      | (Inr vs, e1) \<Rightarrow>
          (case contains version vs of
             Inl err \<Rightarrow> (DownloadRaise err, e1)
           | Inr False \<Rightarrow> (ReturnNone, e1)
           | Inr True \<Rightarrow>
               (case versions e1 of
                  (Inl err, e2) \<Rightarrow> (DownloadRaise err, e2)
                | (Inr vs2, e2) \<Rightarrow>
                    (case path vs2 [version, S ''url''] of
                       Inl err \<Rightarrow> (DownloadRaise err, e2)
                     | Inr url \<Rightarrow> (SessionGet url, e2)))))"

section \<open>PhotoAlbum\<close>

text \<open>
  The query \<open>_list_query_gen\<close> builds for \<open>photos_request(offset)\<close>: its filter clauses,
  its record type and its result limit.  \<open>desiredKeys\<close> and \<open>zoneID\<close> are the same
  constants in every query and are left out.
\<close>

record list_query =
  filterBy :: "json list"
  recordType :: pystr
  resultsLimit :: int

definition filter_clause :: "string \<Rightarrow> string \<Rightarrow> json \<Rightarrow> json" where
  "filter_clause field_name ty v =
     JObj [(S ''fieldName'', JStr (S field_name)),
           (S ''fieldValue'', JObj [(S ''type'', JStr (S ty)), (S ''value'', v)]),
           (S ''comparator'', JStr (S ''EQUALS''))]"

definition list_query_gen ::
  "int \<Rightarrow> int \<Rightarrow> pystr \<Rightarrow> pystr \<Rightarrow> json list option \<Rightarrow> list_query" where
  "list_query_gen page_size offset list_type direction query_filter =
     \<lparr>filterBy =
        [filter_clause ''startRank'' ''INT64'' (JInt offset),
         filter_clause ''direction'' ''STRING'' (JStr direction)]
        @ (case query_filter of None \<Rightarrow> [] | Some fs \<Rightarrow> fs),
      recordType = list_type,
      resultsLimit = page_size * 2\<rparr>"

text \<open>
  The session is the outside world.  A call of \<open>session.post\<close> raises, or returns a
  response whose \<open>json()\<close> raises or gives the decoded body; it may change the world
  \<open>'w\<close>.  The retry handler is called with the exception and the attempt counter; it
  returns normally (\<open>None\<close>) or raises, and may change the world too.
\<close>

datatype post_result = PostRaises error | PostReturns "error + json"

record 'w session =
  post_list :: "list_query \<Rightarrow> 'w \<Rightarrow> post_result \<times> 'w"
  post_count :: "pystr \<Rightarrow> 'w \<Rightarrow> post_result \<times> 'w"

record 'w photo_album =
  name :: pystr
  list_type :: pystr
  obj_type :: pystr
  direction :: pystr
  query_filter :: "json list option"
  page_size :: int
  exception_handler :: "(error \<Rightarrow> nat \<Rightarrow> 'w \<Rightarrow> error option \<times> 'w) option"
  len_attr :: json

text \<open>
  \<open>len(self)\<close>: \<open>__len__\<close> asks the count query while \<open>_len\<close> is \<open>None\<close> and keeps the
  value in \<open>_len\<close>; the builtin \<open>len\<close> then wants a non-negative integer that fits a
  machine word.
\<close>

definition len_check :: "json \<Rightarrow> error + int" where
  "len_check j =
     (case j of
        JInt n \<Rightarrow>
          (if n < 0 then Inl ValueError
           else if n > 9223372036854775807 then Inl OverflowError
           else Inr n)
      | JBool b \<Rightarrow> Inr (if b then 1 else 0)
      | _ \<Rightarrow> Inl TypeError)"

definition count_value :: "json \<Rightarrow> error + json" where
  "count_value response =
     bind (getitem response (S ''batch'')) (\<lambda>batch.
     bind (getitem_int batch 0) (\<lambda>b0.
     bind (getitem b0 (S ''records'')) (\<lambda>records.
     bind (getitem_int records 0) (\<lambda>r0.
     path r0 [S ''fields'', S ''itemCount'', S ''value'']))))"

definition album_len ::
  "'w session \<Rightarrow> 'w photo_album \<Rightarrow> 'w \<Rightarrow> (error + int) \<times> 'w photo_album \<times> 'w" where
  "album_len ses alb w =
     (if len_attr alb = JNull then
        (case post_count ses (obj_type alb) w of
           (PostRaises ex, w1) \<Rightarrow> (Inl ex, alb, w1)
         | (PostReturns body, w1) \<Rightarrow>
             (case bind body count_value of
                Inl err \<Rightarrow> (Inl err, alb, w1)
              | Inr v \<Rightarrow> (len_check v, alb\<lparr>len_attr := v\<rparr>, w1)))
      else (len_check (len_attr alb), alb, w))"

text \<open>\<open>for rec in obj\<close>: the items a loop over a decoded JSON value sees.\<close>

fun iterate :: "json \<Rightarrow> error + json list" where
  "iterate (JList xs) = Inr xs"
| "iterate (JObj kvs) = Inr (map (\<lambda>kv. JStr (fst kv)) kvs)"
| "iterate (JStr s) = Inr (map (\<lambda>c. JStr [c]) s)"
| "iterate _ = Inl TypeError"

text \<open>\<open>rec["fields"]["masterRef"]["value"]["recordName"]\<close>.\<close>

definition master_ref :: "json \<Rightarrow> error + json" where
  "master_ref rec = path rec [S ''fields'', S ''masterRef'', S ''value'', S ''recordName'']"

text \<open>
  The first loop over a page: \<open>asset_records\<close>, a dict from the master identifier an
  asset refers to, to that asset record, and \<open>master_records\<close>, the master records in
  the order of the response.
\<close>

fun partition_records ::
  "json list \<Rightarrow> (json \<times> json) list \<Rightarrow> json list \<Rightarrow> error + ((json \<times> json) list \<times> json list)" where
  "partition_records [] asset_records master_records = Inr (asset_records, master_records)"
| "partition_records (rec # recs) asset_records master_records =
     (case getitem rec (S ''recordType'') of
        Inl err \<Rightarrow> Inl err
      | Inr ty \<Rightarrow>
          (if ty = JStr (S ''CPLAsset'') then
             (case master_ref rec of
                Inl err \<Rightarrow> Inl err
              | Inr master_id \<Rightarrow>
                  (if hashable master_id
                   then partition_records recs
                          (dict_set asset_records (py_key master_id) rec) master_records
                   else Inl TypeError))
           else if ty = JStr (S ''CPLMaster'') then
             partition_records recs asset_records (master_records @ [rec])
           else partition_records recs asset_records master_records))"

text \<open>\<open>asset_records[record_name]\<close>.\<close>

definition lookup_asset :: "(json \<times> json) list \<Rightarrow> json \<Rightarrow> error + json" where
  "lookup_asset asset_records record_name =
     (if hashable record_name
      then (case map_of asset_records (py_key record_name) of
              None \<Rightarrow> Inl KeyError
            | Some a \<Rightarrow> Inr a)
      else Inl TypeError)"

text \<open>
  An asset record and a master record, as the first loop tells them, and a master
  record whose identifier \<open>asset_records\<close> has an entry for.
\<close>

definition is_asset :: "json \<Rightarrow> bool" where
  "is_asset rec = (getitem rec (S ''recordType'') = Inr (JStr (S ''CPLAsset'')))"

definition is_master :: "json \<Rightarrow> bool" where
  "is_master rec = (getitem rec (S ''recordType'') = Inr (JStr (S ''CPLMaster'')))"

definition matched :: "(json \<times> json) list \<Rightarrow> json \<Rightarrow> bool" where
  "matched asset_records master =
     (case bind (getitem master (S ''recordName'')) (lookup_asset asset_records) of
        Inl err \<Rightarrow> False
      | Inr asset \<Rightarrow> True)"

text \<open>
  The second loop over a page, \<open>for master_record in master_records: yield ...\<close>: the
  entities yielded, and the exception that ended the loop if one did.
\<close>

fun yield_entities :: "(json \<times> json) list \<Rightarrow> json list \<Rightarrow> photo_asset list \<times> error option" where
  "yield_entities asset_records [] = ([], None)"
| "yield_entities asset_records (master # rest) =
     (case bind (getitem master (S ''recordName'')) (lookup_asset asset_records) of
        Inl err \<Rightarrow> ([], Some err)
      | Inr asset \<Rightarrow>
          (case yield_entities asset_records rest of
             (ys, r) \<Rightarrow> (PhotoAsset master asset # ys, r)))"

text \<open>
  The dict \<open>asset_records\<close> and the list \<open>master_records\<close> of a decoded response, or
  the exception the first loop raises.
\<close>

definition page_records :: "json \<Rightarrow> error + ((json \<times> json) list \<times> json list)" where
  "page_records response =
     bind (bind (getitem response (S ''records'')) iterate)
       (\<lambda>recs. partition_records recs [] [])"

text \<open>
  What the loop body of \<open>photos\<close> does with a decoded response at \<open>offset\<close>: it raises
  (after the entities it had yielded), or it leaves the loop, or it goes on at a new
  offset after yielding the entities of the page.
\<close>

datatype page_result =
    PageRaise "photo_asset list" error
  | PageBreak
  | PageContinue int "photo_asset list"

definition process_page :: "pystr \<Rightarrow> int \<Rightarrow> json \<Rightarrow> page_result" where
  "process_page dir offset response =
     (case page_records response of
        Inl err \<Rightarrow> PageRaise [] err
      | Inr (asset_records, master_records) \<Rightarrow>
          (if length master_records \<noteq> 0 then
             (let offset' = (if dir = S ''DESCENDING''
                             then offset - int (length master_records)
                             else offset + int (length master_records))
              in case yield_entities asset_records master_records of
                   (ys, Some err) \<Rightarrow> PageRaise ys err
                 | (ys, None) \<Rightarrow> PageContinue offset' ys)
           else PageBreak))"

text \<open>
  What a consumer that drains the generator \<open>photos\<close> observes: the requests sent, the
  calls of the retry handler and the entities yielded, in order, and how the iteration
  ended.  \<open>OutOfFuel\<close>: the iteration had not ended after the given number of requests.
\<close>

datatype event = Request list_query | HandlerCall error nat | Yield photo_asset

datatype outcome = Exhausted | Raise error | OutOfFuel

definition prepend :: "event list \<Rightarrow> event list \<times> outcome \<Rightarrow> event list \<times> outcome" where
  "prepend evs r = (evs @ fst r, snd r)"

definition photos_request :: "'w session \<Rightarrow> 'w photo_album \<Rightarrow> int \<Rightarrow> list_query" where
  "photos_request ses alb offset =
     list_query_gen (page_size alb) offset (list_type alb) (direction alb) (query_filter alb)"

fun photos_loop ::
  "'w session \<Rightarrow> 'w photo_album \<Rightarrow> nat \<Rightarrow> int \<Rightarrow> nat \<Rightarrow> 'w \<Rightarrow> event list \<times> outcome" where
  "photos_loop ses alb 0 offset exception_retries w = ([], OutOfFuel)"
| "photos_loop ses alb (Suc fuel) offset exception_retries w =
     (let q = photos_request ses alb offset in
      case post_list ses q w of
        (PostRaises ex, w1) \<Rightarrow>
          (if is_Exception ex then
             (case exception_handler alb of
                Some handler \<Rightarrow>
                  (case handler ex (exception_retries + 1) w1 of
                     (None, w2) \<Rightarrow>
                       prepend [Request q, HandlerCall ex (exception_retries + 1)]
                         (photos_loop ses alb fuel offset (exception_retries + 1) w2)
                   | (Some ex', w2) \<Rightarrow>
                       ([Request q, HandlerCall ex (exception_retries + 1)], Raise ex'))
              | None \<Rightarrow> ([Request q], Raise ex))
           else ([Request q], Raise ex))
      | (PostReturns body, w1) \<Rightarrow>
          (case body of
             Inl err \<Rightarrow> ([Request q], Raise err)
           | Inr response \<Rightarrow>
               (case process_page (direction alb) offset response of
                  PageRaise ys err \<Rightarrow> (Request q # map Yield ys, Raise err)
                | PageBreak \<Rightarrow> ([Request q], Exhausted)
                | PageContinue offset' ys \<Rightarrow>
                    prepend (Request q # map Yield ys)
                      (photos_loop ses alb fuel offset' 0 w1))))"

text \<open>The property \<open>photos\<close>: the initial offset, then the loop.\<close>

definition initial_offset ::
  "'w session \<Rightarrow> 'w photo_album \<Rightarrow> 'w \<Rightarrow> (error + int) \<times> 'w photo_album \<times> 'w" where
  "initial_offset ses alb w =
     (if direction alb = S ''DESCENDING''
      then (case album_len ses alb w of (r, alb', w') \<Rightarrow> (bind r (\<lambda>n. Inr (n - 1)), alb', w'))
      else (Inr 0, alb, w))"

definition photos :: "'w session \<Rightarrow> 'w photo_album \<Rightarrow> nat \<Rightarrow> 'w \<Rightarrow> event list \<times> outcome" where
  "photos ses alb fuel w =
     (case initial_offset ses alb w of
        (Inl err, alb', w') \<Rightarrow> ([], Raise err)
      | (Inr offset, alb', w') \<Rightarrow> photos_loop ses alb' fuel offset 0 w')"

section \<open>Example records, albums and sessions\<close>

definition master_rec :: "string \<Rightarrow> (pystr \<times> json) list \<Rightarrow> json" where
  "master_rec ident fs =
     JObj [(S ''recordName'', JStr (S ident)),
           (S ''recordType'', JStr (S ''CPLMaster'')),
           (S ''fields'', JObj fs)]"

definition asset_rec :: "string \<Rightarrow> string \<Rightarrow> json" where
  "asset_rec ident master =
     JObj [(S ''recordName'', JStr (S ident)),
           (S ''recordType'', JStr (S ''CPLAsset'')),
           (S ''fields'',
              JObj [(S ''masterRef'', JObj [(S ''value'', JObj [(S ''recordName'', JStr (S master))])])])]"

definition page :: "json list \<Rightarrow> post_result" where
  "page recs = PostReturns (Inr (JObj [(S ''records'', JList recs)]))"

definition count_response :: "int \<Rightarrow> post_result" where
  "count_response n =
     PostReturns (Inr (JObj [(S ''batch'', JList [JObj [(S ''records'',
       JList [JObj [(S ''fields'', JObj [(S ''itemCount'', JObj [(S ''value'', JInt n)])])]])]])]))"

text \<open>
  A session that answers the list queries from a script, one answer per request (the
  world is the number of requests so far), and the count query by \<open>count\<close>.
\<close>

definition scripted :: "int \<Rightarrow> post_result list \<Rightarrow> nat session" where
  "scripted count answers =
     \<lparr>post_list = (\<lambda>q n. (if n < length answers then answers ! n
                          else PostRaises (Raised ''connection closed''), Suc n)),
      post_count = (\<lambda>ty n. (count_response count, n))\<rparr>"

definition album ::
  "string \<Rightarrow> (error \<Rightarrow> nat \<Rightarrow> nat \<Rightarrow> error option \<times> nat) option \<Rightarrow> nat photo_album" where
  "album dir handler =
     \<lparr>name = S ''All Photos'',
      list_type = S ''CPLAssetAndMasterByAddedDate'',
      obj_type = S ''CPLAssetByAddedDate'',
      direction = S dir,
      query_filter = None,
      page_size = 100,
      exception_handler = handler,
      len_attr = JNull\<rparr>"

text \<open>A handler that gives up at the third attempt, and the query at an offset.\<close>

definition patient :: "error \<Rightarrow> nat \<Rightarrow> nat \<Rightarrow> error option \<times> nat" where
  "patient ex attempt n = (if attempt < 3 then None else Some ex, n)"

definition query_at :: "string \<Rightarrow> int \<Rightarrow> list_query" where
  "query_at dir offset =
     list_query_gen 100 offset (S ''CPLAssetAndMasterByAddedDate'') (S dir) None"

definition named_record :: "pystr \<Rightarrow> json" where
  "named_record v =
     master_rec ''AYzn1+x/Q0''
       [(S ''itemType'', JObj [(S ''value'', JStr (S ''public.jpeg''))]),
        (S ''filenameEnc'', JObj [(S ''value'', JStr v)])]"

definition m5 :: json where "m5 = master_rec ''M5'' []"
definition m4 :: json where "m4 = master_rec ''M4'' []"
definition a5 :: json where "a5 = asset_rec ''A5'' ''M5''"
definition a4 :: json where "a4 = asset_rec ''A4'' ''M4''"

definition first_page :: json where
  "first_page = JObj [(S ''records'', JList [m5, a5, a4, m4])]"


text \<open>
  A handler that always returns, and the master record of a live photo, with two
  renditions, and its versions.
\<close>

definition stubborn :: "error \<Rightarrow> nat \<Rightarrow> nat \<Rightarrow> error option \<times> nat" where
  "stubborn ex attempt n = (None, n)"

definition res_entry :: "int \<Rightarrow> string \<Rightarrow> json" where
  "res_entry sz url =
     JObj [(S ''value'', JObj [(S ''size'', JInt sz), (S ''downloadURL'', JStr (S url))])]"

definition live_fields :: "(pystr \<times> json) list" where
  "live_fields =
     [(S ''itemType'', JObj [(S ''value'', JStr (S ''public.heic''))]),
      (S ''filenameEnc'', JObj [(S ''value'', JStr (S ''SU1HXzAwMDEuSEVJQw==''))]),
      (S ''resOriginalRes'', res_entry 100 ''https://x/1''),
      (S ''resOriginalWidth'', JObj [(S ''value'', JInt 4032)]),
      (S ''resOriginalVidComplRes'', res_entry 200 ''https://x/2''),
      (S ''resOriginalVidComplFileType'',
         JObj [(S ''value'', JStr (S ''com.apple.quicktime-movie''))])]"

definition live_photo :: json where
  "live_photo = master_rec ''AbC-12/x+yz0123456'' live_fields"

definition live_original :: json where
  "live_original =
     JObj [(S ''filename'', JStr (S ''IMG_0001.HEIC'')),
           (S ''width'', JInt 4032),
           (S ''height'', JNull),
           (S ''size'', JInt 100),
           (S ''url'', JStr (S ''https://x/1'')),
           (S ''type'', JNull)]"

definition live_video :: json where
  "live_video =
     JObj [(S ''filename'', JStr (S ''IMG_0001_HEVC.MOV'')),
           (S ''width'', JNull),
           (S ''height'', JNull),
           (S ''size'', JInt 200),
           (S ''url'', JStr (S ''https://x/2'')),
           (S ''type'', JStr (S ''com.apple.quicktime-movie''))]"

definition live_versions :: json where
  "live_versions = JObj [(S ''original'', live_original), (S ''originalVideo'', live_video)]"

text \<open>
  A page whose second master record has no asset record, the first page with an asset
  record that no master record answers, and a session whose requests fail now and then.
\<close>

definition torn_page :: json where
  "torn_page =
     JObj [(S ''records'', JList [master_rec ''M1'' [], asset_rec ''A1'' ''M1'', master_rec ''M2'' []])]"

definition padded_page :: json where
  "padded_page = JObj [(S ''records'', JList [m5, a5, asset_rec ''A9'' ''M9'', a4, m4])]"

definition flaky_session :: "nat session" where
  "flaky_session =
     scripted 1
       [PostRaises (Raised ''timeout''),
        PostRaises (Raised ''503''),
        page [asset_rec ''A3'' ''M3'', master_rec ''M3'' []],
        PostRaises (Raised ''timeout''),
        page []]"

text \<open>
  A master record with no name, and the master record of an image with a given encoded
  name and a motion component as its \<open>mediumVideo\<close> rendition, with the version that has
  a given file name.
\<close>

definition nameless :: json where
  "nameless =
     master_rec ''AbC-12/x+yz0123456''
       [(S ''itemType'', JObj [(S ''value'', JStr (S ''public.jpeg''))])]"

definition motion :: "string \<Rightarrow> json" where
  "motion name_enc =
     master_rec ''M7''
       [(S ''itemType'', JObj [(S ''value'', JStr (S ''public.jpeg''))]),
        (S ''filenameEnc'', JObj [(S ''value'', JStr (S name_enc))]),
        (S ''resVidMedRes'', res_entry 200 ''https://x/2''),
        (S ''resVidMedFileType'',
           JObj [(S ''value'', JStr (S ''com.apple.quicktime-movie''))])]"

definition motion_version :: "string \<Rightarrow> json" where
  "motion_version fn =
     JObj [(S ''filename'', JStr (S fn)),
           (S ''width'', JNull),
           (S ''height'', JNull),
           (S ''size'', JInt 200),
           (S ''url'', JStr (S ''https://x/2'')),
           (S ''type'', JStr (S ''com.apple.quicktime-movie''))]"

text \<open>The names \<open>IMG_0001\<close> and \<open>IMG_0002.JPG\<close>, encoded.\<close>

definition bare_name :: json where
  "bare_name = motion ''SU1HXzAwMDE=''"

definition jpeg_name :: json where
  "jpeg_name = motion ''SU1HXzAwMDIuSlBH''"

text \<open>
  A master record with no rendition at all, and one whose \<open>medium\<close> rendition has a
  width entry without a value.
\<close>

definition broken_medium :: json where
  "broken_medium =
     master_rec ''M8''
       [(S ''itemType'', JObj [(S ''value'', JStr (S ''public.jpeg''))]),
        (S ''filenameEnc'', JObj [(S ''value'', JStr (S ''SU1HXzAwMDE=''))]),
        (S ''resOriginalRes'', res_entry 100 ''https://x/1''),
        (S ''resJPEGMedRes'', res_entry 50 ''https://x/3''),
        (S ''resJPEGMedWidth'', JObj [(S ''type'', JStr (S ''INT64''))])]"

definition still_version :: json where
  "still_version =
     JObj [(S ''filename'', JStr (S ''IMG_0001'')),
           (S ''width'', JNull),
           (S ''height'', JNull),
           (S ''size'', JInt 100),
           (S ''url'', JStr (S ''https://x/1'')),
           (S ''type'', JNull)]"

text \<open>
  A master record whose \<open>medium\<close> rendition has a \<open>Res\<close> entry with a download URL and
  no size.
\<close>

definition sizeless_fields :: "(pystr \<times> json) list" where
  "sizeless_fields =
     [(S ''itemType'', JObj [(S ''value'', JStr (S ''public.jpeg''))]),
      (S ''filenameEnc'', JObj [(S ''value'', JStr (S ''SU1HXzAwMDE=''))]),
      (S ''resOriginalRes'', res_entry 100 ''https://x/1''),
      (S ''resJPEGMedRes'',
         JObj [(S ''value'', JObj [(S ''downloadURL'', JStr (S ''https://x/3''))])])]"

definition sizeless :: json where
  "sizeless = master_rec ''M9'' sizeless_fields"

section \<open>Basic facts about the Python operations\<close>

lemma startswith_iff: "startswith p s \<longleftrightarrow> (\<exists>b. s = p @ b)"
  by (induction p s rule: startswith.induct) auto

lemma substring_iff: "substring p s \<longleftrightarrow> (\<exists>a b. s = a @ p @ b)"
proof (induction s)
  case Nil
  then show ?case by auto
next
  case (Cons c cs)
  show ?case
  proof
    assume "substring p (c # cs)"
    then consider "startswith p (c # cs)" | "substring p cs" by auto
    then show "\<exists>a b. c # cs = a @ p @ b"
    proof cases
      case 1
      then obtain b where "c # cs = p @ b" using startswith_iff by blast
      then have "c # cs = [] @ p @ b" by simp
      then show ?thesis by blast
    next
      case 2
      then obtain a b where "cs = a @ p @ b" using Cons.IH by blast
      then have "c # cs = (c # a) @ p @ b" by simp
      then show ?thesis by blast
    qed
  next
    assume "\<exists>a b. c # cs = a @ p @ b"
    then obtain a b where ab: "c # cs = a @ p @ b" by blast
    show "substring p (c # cs)"
    proof (cases a)
      case Nil
      then have "startswith p (c # cs)" using ab startswith_iff by auto
      then show ?thesis by simp
    next
      case (Cons x a')
      then have "cs = a' @ p @ b" using ab by simp
      then have "substring p cs" using Cons.IH by blast
      then show ?thesis by simp
    qed
  qed
qed

lemma getitem_InrD: "getitem j k = Inr v \<Longrightarrow> \<exists>kvs. j = JObj kvs \<and> map_of kvs k = Some v"
  by (cases j) (auto split: option.splits)

lemma contains_getitem: "getitem j k = Inr v \<Longrightarrow> contains k j = Inr True"
proof -
  assume "getitem j k = Inr v"
  then obtain kvs where j: "j = JObj kvs" and m: "map_of kvs k = Some v"
    using getitem_InrD by blast
  from m have "k \<in> fst ` set kvs" by (metis map_of_eq_None_iff option.distinct(1))
  then show ?thesis using j by simp
qed

lemma bind_Inr [simp]: "bind (Inr v) f = f v"
  by (simp add: bind_def)

lemma bind_Inl [simp]: "bind (Inl e) f = Inl e"
  by (simp add: bind_def)

lemma bind_eq_Inr: "bind m f = Inr y \<longleftrightarrow> (\<exists>v. m = Inr v \<and> f v = Inr y)"
  by (cases m) auto

lemma path_filename_value:
  assumes "path (master_record e) [S ''fields'', S ''filenameEnc'', S ''value''] = Inr v"
  obtains fields enc where "getitem (master_record e) (S ''fields'') = Inr fields"
    "getitem fields (S ''filenameEnc'') = Inr enc" "getitem enc (S ''value'') = Inr v"
  using assms by (auto simp: bind_eq_Inr)

lemma filename_present:
  assumes "path (master_record e) [S ''fields'', S ''filenameEnc'', S ''value''] = Inr (JStr s)"
  shows "filename e =
     (if substring (S ''.png'') s \<or> substring (S ''.dng'') s \<or> substring (S ''.mp4'') s
         \<or> substring (S ''.gif'') s
      then Inr s else bind (b64decode s) utf8_decode)"
proof -
  from assms obtain fields enc where f: "getitem (master_record e) (S ''fields'') = Inr fields"
    and g: "getitem fields (S ''filenameEnc'') = Inr enc"
    and h: "getitem enc (S ''value'') = Inr (JStr s)"
    by (rule path_filename_value)
  show ?thesis
    unfolding filename_def
    by (simp add: f g h contains_getitem[OF g] contains_getitem[OF h])
qed

section \<open>The codecs are inverse to the encoders\<close>



























section \<open>The two loops over a page\<close>

lemma asset_not_master: "JStr (S ''CPLAsset'') \<noteq> JStr (S ''CPLMaster'')"
  by (simp add: S_def)

lemma partition_records_masters:
  "partition_records recs A M = Inr (A', M') \<Longrightarrow> M' = M @ filter is_master recs"
proof (induction recs arbitrary: A M)
  case Nil
  then show ?case by simp
next
  case (Cons r recs)
  show ?case
  proof (cases "getitem r (S ''recordType'')")
    case (Inl err)
    then show ?thesis using Cons.prems by simp
  next
    case (Inr ty)
    consider "ty = JStr (S ''CPLAsset'')" | "ty = JStr (S ''CPLMaster'')"
      | "ty \<noteq> JStr (S ''CPLAsset'')" "ty \<noteq> JStr (S ''CPLMaster'')" by blast
    then show ?thesis
    proof cases
      case 1
      then have nm: "\<not> is_master r" using Inr asset_not_master by (simp add: is_master_def)
      from Cons.prems Inr 1 obtain A1 where "partition_records recs A1 M = Inr (A', M')"
        by (auto split: sum.splits if_splits)
      from Cons.IH[OF this] show ?thesis using nm by simp
    next
      case 2
      then have m: "is_master r" using Inr by (simp add: is_master_def)
      from Cons.prems Inr 2 have "partition_records recs A (M @ [r]) = Inr (A', M')"
        using asset_not_master by auto
      from Cons.IH[OF this] show ?thesis using m by simp
    next
      case 3
      then have nm: "\<not> is_master r" using Inr by (simp add: is_master_def)
      from Cons.prems Inr 3 have "partition_records recs A M = Inr (A', M')" by simp
      from Cons.IH[OF this] show ?thesis using nm by simp
    qed
  qed
qed

lemma yield_entities_matched:
  "\<forall>m \<in> set ms. matched A m \<Longrightarrow>
   snd (yield_entities A ms) = None \<and> map master_record (fst (yield_entities A ms)) = ms"
proof (induction ms)
  case Nil
  then show ?case by simp
next
  case (Cons m ms)
  then obtain a where a: "bind (getitem m (S ''recordName'')) (lookup_asset A) = Inr a"
    by (auto simp: matched_def split: sum.splits)
  from Cons have IH: "snd (yield_entities A ms) = None"
    "map master_record (fst (yield_entities A ms)) = ms" by simp_all
  show ?case using a IH
    by (cases "yield_entities A ms") (simp add: PhotoAsset_def)
qed

lemma yield_entities_unmatched:
  assumes "\<forall>m \<in> set pre. matched A m"
    and "bind (getitem m (S ''recordName'')) (lookup_asset A) = Inl err"
  shows "yield_entities A (pre @ m # post) = (fst (yield_entities A pre), Some err)"
  using assms(1)
proof (induction pre)
  case Nil
  then show ?case using assms(2) by simp
next
  case (Cons x pre)
  then obtain a where a: "bind (getitem x (S ''recordName'')) (lookup_asset A) = Inr a"
    by (auto simp: matched_def split: sum.splits)
  from Cons have "yield_entities A (pre @ m # post) = (fst (yield_entities A pre), Some err)"
    by simp
  then show ?case using a by (simp split: prod.splits)
qed

lemma yield_entities_joined:
  "e \<in> set (fst (yield_entities A ms)) \<Longrightarrow>
   master_record e \<in> set ms \<and> versions_attr e = JNull \<and>
   bind (getitem (master_record e) (S ''recordName'')) (lookup_asset A) = Inr (asset_record e)"
proof (induction ms arbitrary: e)
  case Nil
  then show ?case by simp
next
  case (Cons m ms)
  show ?case
  proof (cases "bind (getitem m (S ''recordName'')) (lookup_asset A)")
    case (Inl err)
    then show ?thesis using Cons.prems by simp
  next
    case (Inr a)
    then have "e = PhotoAsset m a \<or> e \<in> set (fst (yield_entities A ms))"
      using Cons.prems by (auto split: prod.splits)
    then show ?thesis using Cons.IH Inr by (auto simp: PhotoAsset_def)
  qed
qed

lemma yield_entities_None_matched:
  "snd (yield_entities A ms) = None \<Longrightarrow> \<forall>m \<in> set ms. matched A m"
proof (induction ms)
  case Nil
  then show ?case by simp
next
  case (Cons m ms)
  then show ?case
    by (cases "bind (getitem m (S ''recordName'')) (lookup_asset A)")
       (auto simp: matched_def split: prod.splits)
qed


lemma process_page_empty:
  assumes "page_records response = Inr (A, [])"
  shows "process_page dir offset response = PageBreak"
  using assms by (simp add: process_page_def)



lemma map_of_dict_set: "map_of (dict_set d k v) = (map_of d)(k \<mapsto> v)"
  by (induction d) auto

lemma partition_records_append:
  "partition_records (xs @ ys) A M =
     bind (partition_records xs A M) (\<lambda>(A1, M1). partition_records ys A1 M1)"
proof (induction xs arbitrary: A M)
  case Nil
  then show ?case by simp
next
  case (Cons x xs)
  show ?case
    by (cases "getitem x (S ''recordType'')"; cases "master_ref x") (simp_all add: Cons.IH)
qed

lemma partition_records_cong:
  assumes "\<forall>key. key \<noteq> k \<longrightarrow> map_of A key = map_of A' key"
  shows "(\<exists>err. partition_records recs A M = Inl err \<and> partition_records recs A' M = Inl err)
       \<or> (\<exists>B B' N. partition_records recs A M = Inr (B, N) \<and> partition_records recs A' M = Inr (B', N)
             \<and> (\<forall>key. key \<noteq> k \<longrightarrow> map_of B key = map_of B' key))"
  using assms
proof (induction recs arbitrary: A A' M)
  case Nil
  then show ?case by simp
next
  case (Cons x recs)
  show ?case
  proof (cases "getitem x (S ''recordType'')")
    case (Inl err)
    then show ?thesis by simp
  next
    case ty: (Inr ty)
    show ?thesis
    proof (cases "ty = JStr (S ''CPLAsset'')")
      case True
      show ?thesis
      proof (cases "master_ref x")
        case (Inl err)
        then show ?thesis using ty True by simp
      next
        case (Inr mid)
        show ?thesis
        proof (cases "hashable mid")
          case False
          then show ?thesis using ty True Inr by simp
        next
          case h: True
          have "\<forall>key. key \<noteq> k \<longrightarrow>
              map_of (dict_set A (py_key mid) x) key = map_of (dict_set A' (py_key mid) x) key"
            using Cons.prems by (simp add: map_of_dict_set)
          from Cons.IH[OF this, of M] show ?thesis using ty True Inr h by simp
        qed
      qed
    next
      case False
      show ?thesis
      proof (cases "ty = JStr (S ''CPLMaster'')")
        case True
        from Cons.IH[OF Cons.prems, of "M @ [x]"] show ?thesis using ty True False by simp
      next
        case nm: False
        from Cons.IH[OF Cons.prems, of M] show ?thesis using ty nm False by simp
      qed
    qed
  qed
qed

lemma lookup_asset_cong:
  assumes "\<forall>key. key \<noteq> k \<longrightarrow> map_of B key = map_of B' key" and "py_key rn \<noteq> k"
  shows "lookup_asset B rn = lookup_asset B' rn"
  using assms by (simp add: lookup_asset_def)

lemma yield_entities_cong:
  assumes "\<forall>key. key \<noteq> k \<longrightarrow> map_of B key = map_of B' key"
    and "\<forall>m \<in> set ms. \<forall>rn. getitem m (S ''recordName'') = Inr rn \<longrightarrow> py_key rn \<noteq> k"
  shows "yield_entities B ms = yield_entities B' ms"
  using assms(2)
proof (induction ms)
  case Nil
  then show ?case by simp
next
  case (Cons m ms)
  have "bind (getitem m (S ''recordName'')) (lookup_asset B)
      = bind (getitem m (S ''recordName'')) (lookup_asset B')"
  proof (cases "getitem m (S ''recordName'')")
    case (Inl err)
    then show ?thesis by simp
  next
    case (Inr rn)
    then have "py_key rn \<noteq> k" using Cons.prems by simp
    then show ?thesis using Inr lookup_asset_cong[OF assms(1)] by simp
  qed
  moreover have "yield_entities B ms = yield_entities B' ms" using Cons by simp
  ultimately show ?case by (simp split: sum.splits)
qed

lemma is_asset_not_master: "is_asset a \<Longrightarrow> \<not> is_master a"
  using asset_not_master by (auto simp: is_asset_def is_master_def)

lemma partition_records_asset:
  assumes "is_asset a" "master_ref a = Inr mid" "hashable mid"
  shows "partition_records (a # ys) A M = partition_records ys (dict_set A (py_key mid) a) M"
  using assms by (simp add: is_asset_def)

lemma orphan_asset_dropped:
  assumes a: "is_asset a" "master_ref a = Inr mid" "hashable mid"
    and nm: "\<forall>m \<in> set (xs @ ys). is_master m \<longrightarrow>
               (\<forall>rn. getitem m (S ''recordName'') = Inr rn \<longrightarrow> py_key rn \<noteq> py_key mid)"
    and r1: "bind (getitem response (S ''records'')) iterate = Inr (xs @ a # ys)"
    and r2: "bind (getitem response' (S ''records'')) iterate = Inr (xs @ ys)"
  shows "process_page dir offset response = process_page dir offset response'"
proof -
  have p1: "page_records response = bind (partition_records xs [] [])
              (\<lambda>(A1, M1). partition_records ys (dict_set A1 (py_key mid) a) M1)"
    unfolding page_records_def r1
    by (simp add: partition_records_append partition_records_asset[OF a] del: partition_records.simps)
  have p2: "page_records response' = bind (partition_records xs [] [])
              (\<lambda>(A1, M1). partition_records ys A1 M1)"
    unfolding page_records_def r2 by (simp add: partition_records_append)
  show ?thesis
  proof (cases "partition_records xs [] []")
    case (Inl err)
    then show ?thesis using p1 p2 by (simp add: process_page_def)
  next
    case (Inr AM)
    obtain A1 M1 where AM: "AM = (A1, M1)" by (cases AM)
    have q1: "page_records response = partition_records ys (dict_set A1 (py_key mid) a) M1"
      using p1 Inr AM by simp
    have q2: "page_records response' = partition_records ys A1 M1"
      using p2 Inr AM by simp
    have "\<forall>key. key \<noteq> py_key mid \<longrightarrow> map_of (dict_set A1 (py_key mid) a) key = map_of A1 key"
      by (simp add: map_of_dict_set)
    from partition_records_cong[OF this, of ys M1]
    consider (err) err where "page_records response = Inl err" "page_records response' = Inl err"
      | (ok) B B' N where "page_records response = Inr (B, N)" "page_records response' = Inr (B', N)"
          "\<forall>key. key \<noteq> py_key mid \<longrightarrow> map_of B key = map_of B' key"
      using q1 q2 by auto
    then show ?thesis
    proof cases
      case err
      then show ?thesis by (simp add: process_page_def)
    next
      case ok
      have "partition_records (xs @ ys) [] [] = Inr (B', N)"
        using ok(2) r2 by (simp add: page_records_def)
      then have "N = filter is_master (xs @ ys)"
        using partition_records_masters by fastforce
      then have "\<forall>m \<in> set N. \<forall>rn. getitem m (S ''recordName'') = Inr rn \<longrightarrow> py_key rn \<noteq> py_key mid"
        using nm by auto
      from yield_entities_cong[OF ok(3) this] show ?thesis
        using ok(1,2) by (simp add: process_page_def)
    qed
  qed
qed

lemma partition_records_assets:
  "partition_records recs A0 M0 = Inr (A, M) \<Longrightarrow>
   map_of A key = None \<longleftrightarrow>
     (map_of A0 key = None \<and>
      \<not> (\<exists>a \<in> set recs. is_asset a \<and> (\<exists>mid. master_ref a = Inr mid \<and> py_key mid = key)))"
proof (induction recs arbitrary: A0 M0)
  case Nil
  then show ?case by simp
next
  case (Cons x recs)
  show ?case
  proof (cases "getitem x (S ''recordType'')")
    case (Inl err)
    then show ?thesis using Cons.prems by simp
  next
    case ty: (Inr ty)
    show ?thesis
    proof (cases "ty = JStr (S ''CPLAsset'')")
      case True
      then have ia: "is_asset x" using ty by (simp add: is_asset_def)
      from Cons.prems ty True obtain mid where mid: "master_ref x = Inr mid" "hashable mid"
        and rest: "partition_records recs (dict_set A0 (py_key mid) x) M0 = Inr (A, M)"
        by (auto split: sum.splits if_splits)
      from Cons.IH[OF rest] show ?thesis using ia mid by (auto simp: map_of_dict_set)
    next
      case False
      then have na: "\<not> is_asset x" using ty by (simp add: is_asset_def)
      from Cons.prems ty False obtain M1 where "partition_records recs A0 M1 = Inr (A, M)"
        by (auto split: if_splits)
      from Cons.IH[OF this] show ?thesis using na by auto
    qed
  qed
qed



lemma page_records_partition:
  assumes "bind (getitem response (S ''records'')) iterate = Inr recs"
  shows "page_records response = partition_records recs [] []"
  using assms by (simp add: page_records_def)

lemma unmatched_master_aborts:
  assumes fetch: "post_list ses (photos_request ses alb offset) w = (PostReturns (Inr response), w1)"
    and it: "bind (getitem response (S ''records'')) iterate = Inr recs"
    and recs: "page_records response = Inr (A, pre @ m # post)"
    and pre: "\<forall>x \<in> set pre. matched A x"
    and rn: "getitem m (S ''recordName'') = Inr rn" "hashable rn"
    and none: "\<forall>a \<in> set recs. is_asset a \<longrightarrow> (\<forall>mid. master_ref a = Inr mid \<longrightarrow> py_key mid \<noteq> py_key rn)"
  shows "photos_loop ses alb (Suc fuel) offset r w
           = (Request (photos_request ses alb offset) # map Yield (fst (yield_entities A pre)),
              Raise KeyError)
         \<and> map master_record (fst (yield_entities A pre)) = pre"
proof -
  have "partition_records recs [] [] = Inr (A, pre @ m # post)"
    using recs page_records_partition[OF it] by simp
  from partition_records_assets[OF this, of "py_key rn"] none
  have "map_of A (py_key rn) = None" by auto
  then have "lookup_asset A rn = Inl KeyError" using rn(2) by (simp add: lookup_asset_def)
  then have "bind (getitem m (S ''recordName'')) (lookup_asset A) = Inl KeyError"
    using rn(1) by simp
  from yield_entities_unmatched[OF pre this, of post]
  have y: "yield_entities A (pre @ m # post) = (fst (yield_entities A pre), Some KeyError)" .
  have "process_page (direction alb) offset response
      = PageRaise (fst (yield_entities A pre)) KeyError"
    using recs y by (simp add: process_page_def Let_def)
  then have "photos_loop ses alb (Suc fuel) offset r w
           = (Request (photos_request ses alb offset) # map Yield (fst (yield_entities A pre)),
              Raise KeyError)"
    using fetch by (simp add: Let_def)
  then show ?thesis using yield_entities_matched[OF pre] by simp
qed

lemma prepend_prepend: "prepend xs (prepend ys r) = prepend (xs @ ys) r"
  by (simp add: prepend_def)

lemma photos_loop_retry:
  assumes "exception_handler alb = Some h"
    and "post_list ses (photos_request ses alb offset) w = (PostRaises ex, w1)"
    and "is_Exception ex"
    and "h ex (r + 1) w1 = (None, w2)"
  shows "photos_loop ses alb (Suc fuel) offset r w
          = prepend [Request (photos_request ses alb offset), HandlerCall ex (r + 1)]
              (photos_loop ses alb fuel offset (r + 1) w2)"
  using assms by (simp add: Let_def)

lemma photos_loop_retries:
  assumes h: "exception_handler alb = Some h"
    and fail: "\<forall>i<n. post_list ses (photos_request ses alb offset) (ws i) = (PostRaises (exs i), ws' i)
                 \<and> is_Exception (exs i)
                 \<and> h (exs i) (r + i + 1) (ws' i) = (None, ws (Suc i))"
  shows "photos_loop ses alb (n + fuel) offset r (ws 0)
     = prepend (concat (map (\<lambda>i. [Request (photos_request ses alb offset),
                                   HandlerCall (exs i) (r + i + 1)]) [0..<n]))
         (photos_loop ses alb fuel offset (r + n) (ws n))"
  using fail
proof (induction n arbitrary: r ws ws' exs)
  case 0
  then show ?case by (simp add: prepend_def)
next
  case (Suc n)
  let ?q = "photos_request ses alb offset"
  from Suc.prems have first: "post_list ses ?q (ws 0) = (PostRaises (exs 0), ws' 0)"
    "is_Exception (exs 0)"
    "h (exs 0) (r + 1) (ws' 0) = (None, ws (Suc 0))"
    by auto
  have rest: "\<forall>i<n. post_list ses ?q (ws (Suc i)) = (PostRaises (exs (Suc i)), ws' (Suc i))
                 \<and> is_Exception (exs (Suc i))
                 \<and> h (exs (Suc i)) (r + 1 + i + 1) (ws' (Suc i)) = (None, ws (Suc (Suc i)))"
    using Suc.prems by auto
  have step: "photos_loop ses alb (Suc (n + fuel)) offset r (ws 0)
      = prepend [Request ?q, HandlerCall (exs 0) (r + 1)]
          (photos_loop ses alb (n + fuel) offset (r + 1) (ws (Suc 0)))"
    using photos_loop_retry[OF h first] .
  have IH: "photos_loop ses alb (n + fuel) offset (r + 1) (ws (Suc 0))
      = prepend (concat (map (\<lambda>i. [Request ?q, HandlerCall (exs (Suc i)) (r + 1 + i + 1)]) [0..<n]))
          (photos_loop ses alb fuel offset (r + 1 + n) (ws (Suc n)))"
    using Suc.IH[of "\<lambda>i. ws (Suc i)" "\<lambda>i. exs (Suc i)" "\<lambda>i. ws' (Suc i)" "r + 1"] rest by simp
  have m: "concat (map (\<lambda>i. [Request ?q, HandlerCall (exs i) (r + i + 1)]) [0..<Suc n])
      = [Request ?q, HandlerCall (exs 0) (r + 1)]
        @ concat (map (\<lambda>i. [Request ?q, HandlerCall (exs (Suc i)) (r + 1 + i + 1)]) [0..<n])"
    by (simp only: map_upt_Suc) simp
  show ?case
    unfolding m using step IH by (simp add: prepend_prepend)
qed

section \<open>File names and versions of an entity\<close>


lemma endswith_iff: "endswith x s \<longleftrightarrow> (\<exists>a. s = a @ x)"
proof
  assume "endswith x s"
  then obtain b where "rev s = rev x @ b" unfolding endswith_def startswith_iff by blast
  then have "s = rev b @ x" by (metis rev_append rev_rev_ident)
  then show "\<exists>a. s = a @ x" by blast
next
  assume "\<exists>a. s = a @ x"
  then obtain a where "s = a @ x" by blast
  then have "rev s = rev x @ rev a" by simp
  then show "endswith x s" unfolding endswith_def startswith_iff by blast
qed





lemma item_type_extension_versions_attr [simp]:
  "item_type_extension (e\<lparr>versions_attr := x\<rparr>) = item_type_extension e"
  by (simp add: item_type_extension_def)

lemma synthetic_filename_versions_attr [simp]:
  "synthetic_filename (e\<lparr>versions_attr := x\<rparr>) = synthetic_filename e"
  by (simp add: synthetic_filename_def id'_def cong: json.case_cong)

lemma filename_versions_attr [simp]: "filename (e\<lparr>versions_attr := x\<rparr>) = filename e"
  by (simp add: filename_def cong: if_cong)

lemma item_type_versions_attr [simp]: "item_type (e\<lparr>versions_attr := x\<rparr>) = item_type e"
  by (simp add: item_type_def)

lemma build_version_versions_attr [simp]:
  "build_version (e\<lparr>versions_attr := x\<rparr>) p = build_version e p"
  by (simp add: build_version_def)

lemma dict_set_fresh: "k \<notin> set (map fst d) \<Longrightarrow> dict_set d k v = d @ [(k, v)]"
  by (induction d) auto

lemma versions_loop_result:
  assumes f: "getitem (master_record e) (S ''fields'') = Inr (JObj f)"
    and d: "versions_attr e = JObj d"
    and dist: "distinct (map fst table)" "set (map fst table) \<inter> set (map fst d) = {}"
    and run: "versions_loop e table = (None, e1)"
  shows "\<exists>vs. versions_attr e1 = JObj (d @ vs) \<and> master_record e1 = master_record e
           \<and> asset_record e1 = asset_record e
           \<and> list_all2 (\<lambda>kv kp. fst kv = fst kp \<and> build_version e (snd kp) = Inr (snd kv))
                 vs (filter (\<lambda>kp. snd kp @ S ''Res'' \<in> set (map fst f)) table)"
  using f d dist run
proof (induction table arbitrary: e d)
  case Nil
  then show ?case by simp
next
  case (Cons kp table)
  obtain key prefix where kp: "kp = (key, prefix)" by (cases kp)
  have c: "bind (getitem (master_record e) (S ''fields'')) (contains (prefix @ S ''Res''))
      = Inr (prefix @ S ''Res'' \<in> set (map fst f))"
    using Cons.prems(1) by simp
  show ?case
  proof (cases "prefix @ S ''Res'' \<in> set (map fst f)")
    case False
    then have run': "versions_loop e table = (None, e1)" using Cons.prems(5) kp c by simp
    have "distinct (map fst table)" "set (map fst table) \<inter> set (map fst d) = {}"
      using Cons.prems(3,4) by auto
    from Cons.IH[OF Cons.prems(1,2) this run'] show ?thesis
      using False kp by simp
  next
    case True
    from Cons.prems(5) kp c True obtain v where v: "build_version e prefix = Inr v"
      and run': "versions_loop (e\<lparr>versions_attr := store_version (versions_attr e) key v\<rparr>) table
                  = (None, e1)"
      by (auto split: sum.splits)
    let ?e = "e\<lparr>versions_attr := store_version (versions_attr e) key v\<rparr>"
    have kd: "key \<notin> set (map fst d)" using Cons.prems(4) kp by auto
    have d': "versions_attr ?e = JObj (d @ [(key, v)])"
      using Cons.prems(2) dict_set_fresh[OF kd] by simp
    have f': "getitem (master_record ?e) (S ''fields'') = Inr (JObj f)"
      using Cons.prems(1) by simp
    have "distinct (map fst table)" "set (map fst table) \<inter> set (map fst (d @ [(key, v)])) = {}"
      using Cons.prems(3,4) kp by auto
    from Cons.IH[OF f' d' this run']
    obtain vs where vs: "versions_attr e1 = JObj ((d @ [(key, v)]) @ vs)"
      "master_record e1 = master_record e" "asset_record e1 = asset_record e"
      "list_all2 (\<lambda>kv kp. fst kv = fst kp \<and> build_version e (snd kp) = Inr (snd kv))
         vs (filter (\<lambda>kp. snd kp @ S ''Res'' \<in> set (map fst f)) table)"
      by auto
    have "list_all2 (\<lambda>kv kp. fst kv = fst kp \<and> build_version e (snd kp) = Inr (snd kv))
         ((key, v) # vs) (filter (\<lambda>kp. snd kp @ S ''Res'' \<in> set (map fst f)) (kp # table))"
      using vs(4) v True kp by simp
    then show ?thesis using vs(1,2,3) by auto
  qed
qed

lemma tables_distinct:
  "distinct (map fst PHOTO_VERSION_LOOKUP)" "distinct (map fst VIDEO_VERSION_LOOKUP)"
  by (simp_all add: PHOTO_VERSION_LOOKUP_def VIDEO_VERSION_LOOKUP_def S_def)

lemma versions_fresh:
  assumes f: "getitem m (S ''fields'') = Inr (JObj f)"
    and run: "versions (PhotoAsset m a) = (Inr vs, e1)"
  shows "\<exists>kind d. item_type (PhotoAsset m a) = Inr kind \<and> vs = JObj d
           \<and> versions_attr e1 = JObj d
           \<and> list_all2 (\<lambda>kv kp. fst kv = fst kp \<and> build_version (PhotoAsset m a) (snd kp) = Inr (snd kv))
                 d (filter (\<lambda>kp. snd kp @ S ''Res'' \<in> set (map fst f))
                      (if kind = S ''movie'' then VIDEO_VERSION_LOOKUP else PHOTO_VERSION_LOOKUP))"
proof -
  let ?e = "PhotoAsset m a"
  let ?init = "?e\<lparr>versions_attr := JObj []\<rparr>"
  have fresh: "\<not> truthy (versions_attr ?e)" by (simp add: PhotoAsset_def)
  have step: "versions ?e =
      (case item_type ?e of
         Inl err \<Rightarrow> (Inl err, ?init)
       | Inr kind \<Rightarrow>
           (case versions_loop ?init
                   (if kind = S ''movie'' then VIDEO_VERSION_LOOKUP else PHOTO_VERSION_LOOKUP) of
              (Some err, e1) \<Rightarrow> (Inl err, e1)
            | (None, e1) \<Rightarrow> (Inr (versions_attr e1), e1)))"
    using fresh by (simp add: versions_def Let_def)
  obtain kind where kind: "item_type ?e = Inr kind"
  proof (cases "item_type ?e")
    case (Inl err)
    then have "versions ?e = (Inl err, ?init)" by (simp only: step sum.case)
    then show ?thesis using run by simp
  next
    case (Inr k)
    then show ?thesis using that by blast
  qed
  let ?table = "if kind = S ''movie'' then VIDEO_VERSION_LOOKUP else PHOTO_VERSION_LOOKUP"
  obtain r e2 where l: "versions_loop ?init ?table = (r, e2)" by (cases "versions_loop ?init ?table")
  have loop: "versions_loop ?init ?table = (None, e1)" and vs: "vs = versions_attr e1"
  proof -
    have v: "versions ?e = (case r of Some err \<Rightarrow> (Inl err, e2) | None \<Rightarrow> (Inr (versions_attr e2), e2))"
      by (simp only: step kind sum.case l prod.case)
    show "versions_loop ?init ?table = (None, e1)" using v run l by (cases r) simp_all
    show "vs = versions_attr e1" using v run by (cases r) simp_all
  qed
  have f0: "getitem (master_record ?init) (S ''fields'') = Inr (JObj f)"
    using f by (simp add: PhotoAsset_def)
  have d0: "versions_attr ?init = JObj []" by simp
  have dist: "distinct (map fst ?table)" "set (map fst ?table) \<inter> set (map fst []) = {}"
    using tables_distinct by auto
  from versions_loop_result[OF f0 d0 dist loop] obtain d where
    "versions_attr e1 = JObj ([] @ d)"
    "list_all2 (\<lambda>kv kp. fst kv = fst kp \<and> build_version ?init (snd kp) = Inr (snd kv))
         d (filter (\<lambda>kp. snd kp @ S ''Res'' \<in> set (map fst f)) ?table)"
    by blast
  then show ?thesis using kind vs by auto
qed

lemma bind_InrE:
  assumes "bind m f = Inr y"
  obtains v where "m = Inr v"
  using assms by (cases m) auto

lemma build_version_shape:
  assumes f: "getitem (master_record e) (S ''fields'') = Inr (JObj f)"
    and run: "build_version e p = Inr v"
  shows "\<exists>fn kind w h sz u ty. filename e = Inr fn \<and> item_type e = Inr kind
     \<and> bind (py_get (JObj f) (p @ S ''Width'')) entry_value = Inr w
     \<and> bind (py_get (JObj f) (p @ S ''Height'')) entry_value = Inr h
     \<and> bind (py_get (JObj f) (p @ S ''FileType'')) entry_value = Inr ty
     \<and> bind (py_get (JObj f) (p @ S ''Res''))
          (\<lambda>r. if truthy r then path r [S ''value'', S ''size''] else Inr JNull) = Inr sz
     \<and> bind (py_get (JObj f) (p @ S ''Res''))
          (\<lambda>r. if truthy r then path r [S ''value'', S ''downloadURL''] else Inr JNull) = Inr u
     \<and> v = version_dict fn kind w h sz u ty"
proof -
  note r = run[unfolded build_version_def f bind_Inr]
  from r obtain fn where fn: "filename e = Inr fn" by (rule bind_InrE)
  note r = r[unfolded fn bind_Inr]
  from r obtain w where w: "bind (py_get (JObj f) (p @ S ''Width'')) entry_value = Inr w"
    by (rule bind_InrE)
  note r = r[unfolded w bind_Inr]
  from r obtain h where h: "bind (py_get (JObj f) (p @ S ''Height'')) entry_value = Inr h"
    by (rule bind_InrE)
  note r = r[unfolded h bind_Inr]
  from r obtain se where se: "py_get (JObj f) (p @ S ''Res'') = Inr se" by (rule bind_InrE)
  note r = r[unfolded se bind_Inr]
  from r obtain sz where sz: "(if truthy se then path se [S ''value'', S ''size''] else Inr JNull) = Inr sz"
    by (rule bind_InrE)
  note r = r[unfolded sz bind_Inr]
  from r obtain u where u: "(if truthy se then path se [S ''value'', S ''downloadURL''] else Inr JNull) = Inr u"
    by (rule bind_InrE)
  note r = r[unfolded u bind_Inr]
  from r obtain ty where ty: "bind (py_get (JObj f) (p @ S ''FileType'')) entry_value = Inr ty"
    by (rule bind_InrE)
  note r = r[unfolded ty bind_Inr]
  from r obtain kind where kind: "item_type e = Inr kind" by (rule bind_InrE)
  note r = r[unfolded kind bind_Inr]
  from r have v: "v = version_dict fn kind w h sz u ty" by (simp only: sum.inject)
  have s1: "bind (py_get (JObj f) (p @ S ''Res''))
          (\<lambda>r. if truthy r then path r [S ''value'', S ''size''] else Inr JNull) = Inr sz"
    unfolding se bind_Inr using sz .
  have s2: "bind (py_get (JObj f) (p @ S ''Res''))
          (\<lambda>r. if truthy r then path r [S ''value'', S ''downloadURL''] else Inr JNull) = Inr u"
    unfolding se bind_Inr using u .
  from fn kind w h ty s1 s2 v show ?thesis by blast
qed


lemma entry_value_ok:
  assumes "\<And>x. map_of f k = Some x \<Longrightarrow> truthy x \<Longrightarrow> \<exists>y. getitem x (S ''value'') = Inr y"
  shows "\<exists>w. bind (py_get (JObj f) k) entry_value = Inr w"
proof (cases "map_of f k")
  case None
  then show ?thesis by (simp add: entry_value_def)
next
  case (Some x)
  show ?thesis
  proof (cases "truthy x")
    case True
    from assms[OF Some True] show ?thesis using Some True by (auto simp: entry_value_def)
  next
    case False
    then show ?thesis using Some by (simp add: entry_value_def)
  qed
qed

lemma build_version_succeeds:
  assumes f: "getitem (master_record e) (S ''fields'') = Inr (JObj f)"
    and fn: "filename e = Inr fn" and kind: "item_type e = Inr kind"
    and ok: "\<And>x. (map_of f (p @ S ''Width'') = Some x \<or> map_of f (p @ S ''Height'') = Some x
                  \<or> map_of f (p @ S ''FileType'') = Some x) \<Longrightarrow> truthy x
              \<Longrightarrow> \<exists>y. getitem x (S ''value'') = Inr y"
    and res: "\<And>x. map_of f (p @ S ''Res'') = Some x \<Longrightarrow> truthy x
              \<Longrightarrow> \<exists>sz u. path x [S ''value'', S ''size''] = Inr sz
                       \<and> path x [S ''value'', S ''downloadURL''] = Inr u"
  shows "\<exists>v. build_version e p = Inr v"
proof -
  obtain w where w: "bind (py_get (JObj f) (p @ S ''Width'')) entry_value = Inr w"
    using entry_value_ok[of f "p @ S ''Width''"] ok by blast
  obtain h where h: "bind (py_get (JObj f) (p @ S ''Height'')) entry_value = Inr h"
    using entry_value_ok[of f "p @ S ''Height''"] ok by blast
  obtain ty where ty: "bind (py_get (JObj f) (p @ S ''FileType'')) entry_value = Inr ty"
    using entry_value_ok[of f "p @ S ''FileType''"] ok by blast
  obtain se where se: "py_get (JObj f) (p @ S ''Res'') = Inr se"
    and se': "se = (case map_of f (p @ S ''Res'') of None \<Rightarrow> JNull | Some x \<Rightarrow> x)"
    by simp
  obtain sz u where sz: "(if truthy se then path se [S ''value'', S ''size''] else Inr JNull) = Inr sz"
    and u: "(if truthy se then path se [S ''value'', S ''downloadURL''] else Inr JNull) = Inr u"
  proof (cases "truthy se")
    case True
    then obtain x where "map_of f (p @ S ''Res'') = Some x" "x = se"
      using se' by (cases "map_of f (p @ S ''Res'')") auto
    from res[OF this(1)] True this(2) that show ?thesis by auto
  next
    case False
    then show ?thesis using that by simp
  qed
  show ?thesis
    unfolding build_version_def f bind_Inr fn w h se sz u ty kind by blast
qed

lemma versions_loop_succeeds:
  assumes f: "getitem (master_record e) (S ''fields'') = Inr (JObj f)"
    and ok: "\<forall>kp \<in> set table. snd kp @ S ''Res'' \<in> set (map fst f)
               \<longrightarrow> (\<exists>v. build_version e (snd kp) = Inr v)"
  shows "\<exists>e1. versions_loop e table = (None, e1)"
  using f ok
proof (induction table arbitrary: e)
  case Nil
  then show ?case by simp
next
  case (Cons kp table)
  obtain key prefix where kp: "kp = (key, prefix)" by (cases kp)
  have c: "bind (getitem (master_record e) (S ''fields'')) (contains (prefix @ S ''Res''))
      = Inr (prefix @ S ''Res'' \<in> set (map fst f))"
    using Cons.prems(1) by simp
  show ?case
  proof (cases "prefix @ S ''Res'' \<in> set (map fst f)")
    case False
    have "\<exists>e1. versions_loop e table = (None, e1)"
      using Cons.IH[OF Cons.prems(1)] Cons.prems(2) by simp
    then show ?thesis using kp c False by simp
  next
    case True
    then obtain v where v: "build_version e prefix = Inr v" using Cons.prems(2) kp by auto
    let ?e = "e\<lparr>versions_attr := store_version (versions_attr e) key v\<rparr>"
    have f': "getitem (master_record ?e) (S ''fields'') = Inr (JObj f)"
      using Cons.prems(1) by simp
    have "\<forall>kp \<in> set table. snd kp @ S ''Res'' \<in> set (map fst f)
               \<longrightarrow> (\<exists>v. build_version ?e (snd kp) = Inr v)"
      using Cons.prems(2) by simp
    from Cons.IH[OF f' this] show ?thesis using kp c True v by simp
  qed
qed

lemma versions_succeeds:
  assumes f: "getitem m (S ''fields'') = Inr (JObj f)"
    and kind: "item_type (PhotoAsset m a) = Inr kind"
    and ok: "\<forall>kp \<in> set (if kind = S ''movie'' then VIDEO_VERSION_LOOKUP else PHOTO_VERSION_LOOKUP).
               snd kp @ S ''Res'' \<in> set (map fst f)
               \<longrightarrow> (\<exists>v. build_version (PhotoAsset m a) (snd kp) = Inr v)"
  shows "\<exists>vs e1. versions (PhotoAsset m a) = (Inr vs, e1)"
proof -
  let ?e = "PhotoAsset m a"
  let ?init = "?e\<lparr>versions_attr := JObj []\<rparr>"
  let ?table = "if kind = S ''movie'' then VIDEO_VERSION_LOOKUP else PHOTO_VERSION_LOOKUP"
  have f0: "getitem (master_record ?init) (S ''fields'') = Inr (JObj f)"
    using f by (simp add: PhotoAsset_def)
  have "\<forall>kp \<in> set ?table. snd kp @ S ''Res'' \<in> set (map fst f)
               \<longrightarrow> (\<exists>v. build_version ?init (snd kp) = Inr v)"
    using ok by simp
  from versions_loop_succeeds[OF f0 this] obtain e1 where "versions_loop ?init ?table = (None, e1)"
    by blast
  moreover have "\<not> truthy (versions_attr ?e)" by (simp add: PhotoAsset_def)
  ultimately have "versions ?e = (Inr (versions_attr e1), e1)"
    using kind by (simp add: versions_def Let_def)
  then show ?thesis by blast
qed

lemma list_all2_fst:
  "list_all2 (\<lambda>kv kp. fst kv = fst kp \<and> Q kv kp) xs ys \<Longrightarrow> map fst xs = map fst ys"
  by (induction xs ys rule: list_all2_induct) auto

lemma list_all2_member:
  "list_all2 P xs ys \<Longrightarrow> x \<in> set xs \<Longrightarrow> \<exists>y \<in> set ys. P x y"
  by (induction xs ys rule: list_all2_induct) auto

lemma list_all2_member2:
  "list_all2 P xs ys \<Longrightarrow> y \<in> set ys \<Longrightarrow> \<exists>x \<in> set xs. P x y"
  by (induction xs ys rule: list_all2_induct) auto

lemma entry_value_absent:
  assumes "k \<notin> set (map fst f)" and "bind (py_get (JObj f) k) entry_value = Inr w"
  shows "w = JNull"
proof -
  have "map_of f k = None" using assms(1) by (simp add: map_of_eq_None_iff)
  then show ?thesis using assms(2) by (simp add: entry_value_def)
qed

lemma sub_ext_replaces:
  assumes "x \<noteq> []" and "46 \<notin> set x"
  shows "sub_ext repl (stem @ 46 # x) = stem @ repl"
proof (induction stem)
  case Nil
  then show ?case using assms by simp
next
  case (Cons c stem)
  then show ?case by simp
qed

lemma sub_ext_unchanged:
  assumes "s = [] \<or> last s = 46 \<or> 46 \<notin> set s"
  shows "sub_ext repl s = s"
  using assms
proof (induction s)
  case Nil
  then show ?case by simp
next
  case (Cons c s)
  show ?case
  proof (cases "s = []")
    case True
    then show ?thesis by simp
  next
    case False
    then have "last s \<in> set s" by simp
    from Cons.prems False have d: "last s = 46 \<or> (c \<noteq> 46 \<and> 46 \<notin> set s)" by auto
    then have "s = [] \<or> last s = 46 \<or> 46 \<notin> set s" by blast
    then have IH: "sub_ext repl s = s" by (rule Cons.IH)
    have n: "(c = 46 \<and> s \<noteq> [] \<and> 46 \<notin> set s) = False"
      using d \<open>last s \<in> set s\<close> by auto
    show ?thesis by (simp only: sub_ext.simps n if_False IH)
  qed
qed

lemma lower_length [simp]: "length (lower s) = length s"
  by (simp add: lower_def)

lemma lower_append: "lower (a @ b) = lower a @ lower b"
  by (simp add: lower_def)

lemma lower_heic:
  assumes "lower x = S ''.heic''"
  shows "\<exists>y. x = 46 # y \<and> y \<noteq> [] \<and> 46 \<notin> set y"
proof -
  have len: "length x = 5" using assms lower_length[of x] by (simp add: S_def)
  then obtain a b c d e where x: "x = [a, b, c, d, e]"
    by (auto simp: length_Suc_conv eval_nat_numeral)
  from assms x have "a = 46" "b \<noteq> 46" "c \<noteq> 46" "d \<noteq> 46" "e \<noteq> 46"
    by (auto simp: lower_def S_def split: if_splits)
  then show ?thesis using x by simp
qed

lemma endswith_lower_heic:
  "endswith (S ''.heic'') (lower fn) \<longleftrightarrow> (\<exists>stem x. fn = stem @ x \<and> lower x = S ''.heic'')"
proof
  assume "endswith (S ''.heic'') (lower fn)"
  then obtain a where a: "lower fn = a @ S ''.heic''" using endswith_iff by blast
  then have "length fn = length a + 5" using lower_length[of fn] by (simp add: S_def)
  then have fn: "fn = take (length a) fn @ drop (length a) fn" "length (take (length a) fn) = length a"
    by simp_all
  have "lower fn = lower (take (length a) fn) @ lower (drop (length a) fn)"
    using lower_append[of "take (length a) fn" "drop (length a) fn"] by simp
  then have "lower (drop (length a) fn) = S ''.heic''"
    using a fn(2) by (metis append_eq_append_conv lower_length)
  then show "\<exists>stem x. fn = stem @ x \<and> lower x = S ''.heic''" using fn(1) by blast
next
  assume "\<exists>stem x. fn = stem @ x \<and> lower x = S ''.heic''"
  then obtain stem x where "fn = stem @ x" "lower x = S ''.heic''" by blast
  then have "lower fn = lower stem @ S ''.heic''" by (simp add: lower_append)
  then show "endswith (S ''.heic'') (lower fn)" using endswith_iff by blast
qed

lemma version_dict_items:
  "getitem (version_dict fn kind w h sz u ty) (S ''type'') = Inr ty"
  "getitem (version_dict fn kind w h sz u ty) (S ''filename'')
     = Inr (JStr (if kind = S ''image'' \<and> ty = JStr (S ''com.apple.quicktime-movie'')
                  then (if endswith (S ''.heic'') (lower fn)
                        then sub_ext (S ''_HEVC.MOV'') fn
                        else sub_ext (S ''.MOV'') fn)
                  else fn))"
  by (simp_all add: version_dict_def S_def)

lemma version_filename:
  assumes f: "getitem m (S ''fields'') = Inr (JObj f)"
    and run: "versions (PhotoAsset m a) = (Inr (JObj d), e1)"
    and kv: "(key, v) \<in> set d"
    and fn: "filename (PhotoAsset m a) = Inr fn"
    and kind: "item_type (PhotoAsset m a) = Inr kind"
    and ty: "getitem v (S ''type'') = Inr ty"
  shows "getitem v (S ''filename'')
     = Inr (JStr (if kind = S ''image'' \<and> ty = JStr (S ''com.apple.quicktime-movie'')
                  then (if endswith (S ''.heic'') (lower fn)
                        then sub_ext (S ''_HEVC.MOV'') fn
                        else sub_ext (S ''.MOV'') fn)
                  else fn))"
proof -
  let ?e = "PhotoAsset m a"
  have fe: "getitem (master_record ?e) (S ''fields'') = Inr (JObj f)"
    using f by (simp add: PhotoAsset_def)
  from versions_fresh[OF f run] obtain k' d' where
    d': "JObj d = JObj d'"
    and all: "list_all2 (\<lambda>kv kp. fst kv = fst kp \<and> build_version ?e (snd kp) = Inr (snd kv))
                 d' (filter (\<lambda>kp. snd kp @ S ''Res'' \<in> set (map fst f))
                      (if k' = S ''movie'' then VIDEO_VERSION_LOOKUP else PHOTO_VERSION_LOOKUP))"
    by blast
  have "(key, v) \<in> set d'" using kv d' by simp
  from list_all2_member[OF all this] obtain kp where b: "build_version ?e (snd kp) = Inr v"
    by auto
  from build_version_shape[OF fe b] obtain fn' kind' w h sz u ty' where
    s: "filename ?e = Inr fn'" "item_type ?e = Inr kind'" "v = version_dict fn' kind' w h sz u ty'"
    by blast
  have "fn' = fn" "kind' = kind" using s(1,2) fn kind by simp_all
  moreover have "ty' = ty" using ty s(3) version_dict_items(1) by simp
  ultimately show ?thesis using s(3) version_dict_items(2) by simp
qed

section \<open>Claims about the paginator\<close>







text \<open>
  C3, as amended.  A transport failure, that is an exception of class \<open>Exception\<close> raised
  by the page request itself (\<open>photos_request\<close>, the call of \<open>session.post\<close>): with no
  handler registered it propagates at once and ends the iteration; with a handler, the
  handler is called with the exception and the attempt counter plus one, and when it
  returns the same request is sent again, with the counter kept; when it raises, that
  exception ends the iteration.  So \<open>n\<close> failures in a row that the handler lets pass
  are \<open>n\<close> times the same request, with the attempts \<open>r + 1\<close> to \<open>r + n\<close>.  After a
  request that succeeds the counter is zero again.  A parse failure, that is a response
  whose body fails to decode, is not routed to the handler: its exception ends the
  iteration.  Nor is an exception of the request that is no \<open>Exception\<close> (the clause is
  \<open>except Exception\<close>): it ends the iteration with no call of the handler.
\<close>

theorem photos_request_failure_routing:
  "(post_list ses (photos_request ses alb offset) w = (PostRaises ex, w1)
      \<and> is_Exception ex \<and> exception_handler alb = None
    \<longrightarrow> photos_loop ses alb (Suc fuel) offset r w
          = ([Request (photos_request ses alb offset)], Raise ex))
   \<and> (post_list ses (photos_request ses alb offset) w = (PostRaises ex, w1)
      \<and> is_Exception ex \<and> exception_handler alb = Some h \<and> h ex (r + 1) w1 = (None, w2)
    \<longrightarrow> photos_loop ses alb (Suc fuel) offset r w
          = prepend [Request (photos_request ses alb offset), HandlerCall ex (r + 1)]
              (photos_loop ses alb fuel offset (r + 1) w2))
   \<and> (post_list ses (photos_request ses alb offset) w = (PostRaises ex, w1)
      \<and> is_Exception ex \<and> exception_handler alb = Some h \<and> h ex (r + 1) w1 = (Some ex', w2)
    \<longrightarrow> photos_loop ses alb (Suc fuel) offset r w
          = ([Request (photos_request ses alb offset), HandlerCall ex (r + 1)], Raise ex'))
   \<and> (post_list ses (photos_request ses alb offset) w = (PostRaises ex, w1)
      \<and> \<not> is_Exception ex
    \<longrightarrow> photos_loop ses alb (Suc fuel) offset r w
          = ([Request (photos_request ses alb offset)], Raise ex))
   \<and> (exception_handler alb = Some h
      \<and> (\<forall>i<n. post_list ses (photos_request ses alb offset) (ws i) = (PostRaises (exs i), ws' i)
                 \<and> is_Exception (exs i)
                 \<and> h (exs i) (r + i + 1) (ws' i) = (None, ws (Suc i)))
    \<longrightarrow> photos_loop ses alb (n + fuel) offset r (ws 0)
          = prepend (concat (map (\<lambda>i. [Request (photos_request ses alb offset),
                                        HandlerCall (exs i) (r + i + 1)]) [0..<n]))
              (photos_loop ses alb fuel offset (r + n) (ws n)))
   \<and> (post_list ses (photos_request ses alb offset) w = (PostReturns (Inl err), w1)
    \<longrightarrow> photos_loop ses alb (Suc fuel) offset r w
          = ([Request (photos_request ses alb offset)], Raise err))
   \<and> (post_list ses (photos_request ses alb offset) w = (PostReturns (Inr response), w1)
      \<and> process_page (direction alb) offset response = PageContinue offset' ys
    \<longrightarrow> photos_loop ses alb (Suc fuel) offset r w
          = prepend (Request (photos_request ses alb offset) # map Yield ys)
              (photos_loop ses alb fuel offset' 0 w1))"
proof -
  have one: "(post_list ses (photos_request ses alb offset) w = (PostRaises ex, w1)
      \<and> is_Exception ex \<and> exception_handler alb = None
    \<longrightarrow> photos_loop ses alb (Suc fuel) offset r w
          = ([Request (photos_request ses alb offset)], Raise ex))
   \<and> (post_list ses (photos_request ses alb offset) w = (PostRaises ex, w1)
      \<and> is_Exception ex \<and> exception_handler alb = Some h \<and> h ex (r + 1) w1 = (None, w2)
    \<longrightarrow> photos_loop ses alb (Suc fuel) offset r w
          = prepend [Request (photos_request ses alb offset), HandlerCall ex (r + 1)]
              (photos_loop ses alb fuel offset (r + 1) w2))
   \<and> (post_list ses (photos_request ses alb offset) w = (PostRaises ex, w1)
      \<and> is_Exception ex \<and> exception_handler alb = Some h \<and> h ex (r + 1) w1 = (Some ex', w2)
    \<longrightarrow> photos_loop ses alb (Suc fuel) offset r w
          = ([Request (photos_request ses alb offset), HandlerCall ex (r + 1)], Raise ex'))
   \<and> (post_list ses (photos_request ses alb offset) w = (PostRaises ex, w1)
      \<and> \<not> is_Exception ex
    \<longrightarrow> photos_loop ses alb (Suc fuel) offset r w
          = ([Request (photos_request ses alb offset)], Raise ex))"
    by (simp add: Let_def)
  have many: "exception_handler alb = Some h
      \<and> (\<forall>i<n. post_list ses (photos_request ses alb offset) (ws i) = (PostRaises (exs i), ws' i)
                 \<and> is_Exception (exs i)
                 \<and> h (exs i) (r + i + 1) (ws' i) = (None, ws (Suc i)))
    \<longrightarrow> photos_loop ses alb (n + fuel) offset r (ws 0)
          = prepend (concat (map (\<lambda>i. [Request (photos_request ses alb offset),
                                        HandlerCall (exs i) (r + i + 1)]) [0..<n]))
              (photos_loop ses alb fuel offset (r + n) (ws n))"
    using photos_loop_retries[of alb h n ses offset ws exs ws' r fuel] by blast
  have after: "(post_list ses (photos_request ses alb offset) w = (PostReturns (Inl err), w1)
    \<longrightarrow> photos_loop ses alb (Suc fuel) offset r w
          = ([Request (photos_request ses alb offset)], Raise err))
   \<and> (post_list ses (photos_request ses alb offset) w = (PostReturns (Inr response), w1)
      \<and> process_page (direction alb) offset response = PageContinue offset' ys
    \<longrightarrow> photos_loop ses alb (Suc fuel) offset r w
          = prepend (Request (photos_request ses alb offset) # map Yield ys)
              (photos_loop ses alb fuel offset' 0 w1))"
    by (simp add: Let_def)
  from one many after show ?thesis by (intro conjI) (elim conjE, assumption)+
qed

text \<open>
  A session that fails twice, answers, fails once and answers: the handler sees the
  attempts 1, 2 and then 1 again, and each failed request is repeated at the same offset.
  With no handler the first failure ends the iteration.  A \<open>KeyboardInterrupt\<close> during
  the request ends the iteration although a handler is registered.
\<close>

theorem photos_request_failure_routing_witness:
  "photos_loop flaky_session (album ''ASCENDING'' (Some patient)) 5 0 0 0
     = ([Request (query_at ''ASCENDING'' 0), HandlerCall (Raised ''timeout'') 1,
         Request (query_at ''ASCENDING'' 0), HandlerCall (Raised ''503'') 2,
         Request (query_at ''ASCENDING'' 0),
         Yield (PhotoAsset (master_rec ''M3'' []) (asset_rec ''A3'' ''M3'')),
         Request (query_at ''ASCENDING'' 1), HandlerCall (Raised ''timeout'') 1,
         Request (query_at ''ASCENDING'' 1)], Exhausted)
   \<and> photos_loop flaky_session (album ''ASCENDING'' None) 5 0 0 0
     = ([Request (query_at ''ASCENDING'' 0)], Raise (Raised ''timeout''))
   \<and> photos_loop (scripted 0 [PostRaises KeyboardInterrupt, page []])
         (album ''ASCENDING'' (Some patient)) 5 0 0 0
     = ([Request (query_at ''ASCENDING'' 0)], Raise KeyboardInterrupt)"
proof -
  let ?int = "scripted 0 [PostRaises KeyboardInterrupt, page []]"
  let ?alb = "album ''ASCENDING'' (Some patient)"
  let ?none = "album ''ASCENDING'' None"
  let ?exs = "\<lambda>i::nat. if i = 0 then Raised ''timeout'' else Raised ''503''"
  have q: "photos_request flaky_session ?alb 0 = query_at ''ASCENDING'' 0"
    "photos_request flaky_session ?none 0 = query_at ''ASCENDING'' 0"
    by (simp_all add: photos_request_def query_at_def album_def)
  have h: "exception_handler ?alb = Some patient" "exception_handler ?none = None"
    by (simp_all add: album_def)
  have twice: "\<forall>i<2. post_list flaky_session (photos_request flaky_session ?alb 0) i
                     = (PostRaises (?exs i), Suc i)
                 \<and> is_Exception (?exs i)
                 \<and> patient (?exs i) (0 + i + 1) (Suc i) = (None, Suc i)"
    by (simp add: flaky_session_def scripted_def patient_def less_Suc_eq numeral_2_eq_2)
  have rest: "photos_loop flaky_session ?alb 3 0 (Suc (Suc 0)) 2
     = ([Request (query_at ''ASCENDING'' 0),
         Yield (PhotoAsset (master_rec ''M3'' []) (asset_rec ''A3'' ''M3'')),
         Request (query_at ''ASCENDING'' 1), HandlerCall (Raised ''timeout'') 1,
         Request (query_at ''ASCENDING'' 1)], Exhausted)"
    by code_simp
  note t = photos_request_failure_routing[where ses = flaky_session and alb = ?alb
      and offset = 0 and r = 0 and h = patient and n = 2 and fuel = 3
      and ws = "\<lambda>i. i" and ws' = Suc and exs = ?exs]
  from t h(1) twice have "photos_loop flaky_session ?alb (2 + 3) 0 0 0
      = prepend (concat (map (\<lambda>i. [Request (photos_request flaky_session ?alb 0),
                                    HandlerCall (?exs i) (0 + i + 1)]) [0..<2]))
          (photos_loop flaky_session ?alb 3 0 (0 + 2) 2)"
    by blast
  moreover have "[0..<2] = [0, Suc 0]" by (simp add: numeral_2_eq_2)
  ultimately have a: "photos_loop flaky_session ?alb 5 0 0 0
     = ([Request (query_at ''ASCENDING'' 0), HandlerCall (Raised ''timeout'') 1,
         Request (query_at ''ASCENDING'' 0), HandlerCall (Raised ''503'') 2,
         Request (query_at ''ASCENDING'' 0),
         Yield (PhotoAsset (master_rec ''M3'' []) (asset_rec ''A3'' ''M3'')),
         Request (query_at ''ASCENDING'' 1), HandlerCall (Raised ''timeout'') 1,
         Request (query_at ''ASCENDING'' 1)], Exhausted)"
    using rest q(1) by (simp add: prepend_def)
  have f1: "post_list flaky_session (photos_request flaky_session ?none 0) 0
      = (PostRaises (Raised ''timeout''), 1)"
    by (simp add: flaky_session_def scripted_def)
  note u = photos_request_failure_routing[where ses = flaky_session and alb = ?none
      and offset = 0 and w = 0 and ex = "Raised ''timeout''" and ?w1.0 = 1 and fuel = 4 and r = 0]
  have e1: "is_Exception (Raised ''timeout'')" by simp
  from u f1 e1 h(2) have "photos_loop flaky_session ?none (Suc 4) 0 0 0
          = ([Request (photos_request flaky_session ?none 0)], Raise (Raised ''timeout''))"
    by blast
  then have b: "photos_loop flaky_session ?none 5 0 0 0
     = ([Request (query_at ''ASCENDING'' 0)], Raise (Raised ''timeout''))"
    using q(2) by (simp add: eval_nat_numeral)
  have q3: "photos_request ?int ?alb 0 = query_at ''ASCENDING'' 0"
    by (simp add: photos_request_def query_at_def album_def)
  have f3: "post_list ?int (photos_request ?int ?alb 0) 0 = (PostRaises KeyboardInterrupt, 1)"
    by (simp add: scripted_def)
  have e3: "\<not> is_Exception KeyboardInterrupt" by simp
  note v = photos_request_failure_routing[where ses = ?int and alb = ?alb
      and offset = 0 and w = 0 and ex = KeyboardInterrupt and ?w1.0 = 1 and fuel = 4 and r = 0]
  from v f3 e3 have "photos_loop ?int ?alb (Suc 4) 0 0 0
          = ([Request (photos_request ?int ?alb 0)], Raise KeyboardInterrupt)"
    by blast
  then have c: "photos_loop ?int ?alb 5 0 0 0
     = ([Request (query_at ''ASCENDING'' 0)], Raise KeyboardInterrupt)"
    using q3 by (simp add: eval_nat_numeral)
  from a b c show ?thesis by simp
qed

text \<open>
  C3 as stated fails: with a handler registered, a response whose body does not decode
  (\<open>request.json()\<close> runs outside the \<open>try\<close> block) is not routed to the handler.
\<close>

theorem photos_json_failure_not_routed:
  "photos (scripted 0 [PostReturns (Inl (Raised ''JSONDecodeError'')), page []])
      (album ''ASCENDING'' (Some patient)) 2 0
     = ([Request (query_at ''ASCENDING'' 0)], Raise (Raised ''JSONDecodeError''))"
  by code_simp

text \<open>
  C4.  In a page that the first loop accepts, let \<open>m\<close> be the first master record that
  is not matched, and let no asset record of the page refer to its \<open>recordName\<close>: the
  entities of the master records before \<open>m\<close> are yielded and then \<open>KeyError\<close> ends the
  iteration (no handler is asked).  An asset record that refers to an identifier no
  master record of the page has is dropped silently: the page does what the page
  without that asset record does.
\<close>

theorem unmatched_master_aborts_orphan_asset_dropped:
  "(post_list ses (photos_request ses alb offset) w = (PostReturns (Inr response), w1)
      \<and> bind (getitem response (S ''records'')) iterate = Inr recs
      \<and> page_records response = Inr (A, pre @ m # post)
      \<and> (\<forall>x \<in> set pre. matched A x)
      \<and> getitem m (S ''recordName'') = Inr rn \<and> hashable rn
      \<and> (\<forall>a \<in> set recs. is_asset a \<longrightarrow>
            (\<forall>mid. master_ref a = Inr mid \<longrightarrow> py_key mid \<noteq> py_key rn))
    \<longrightarrow> photos_loop ses alb (Suc fuel) offset r w
          = (Request (photos_request ses alb offset) # map Yield (fst (yield_entities A pre)),
             Raise KeyError)
        \<and> map master_record (fst (yield_entities A pre)) = pre)
   \<and> (is_asset orphan \<and> master_ref orphan = Inr ref \<and> hashable ref
      \<and> (\<forall>x \<in> set (xs @ ys). is_master x \<longrightarrow>
            (\<forall>ident. getitem x (S ''recordName'') = Inr ident \<longrightarrow> py_key ident \<noteq> py_key ref))
      \<and> bind (getitem with_orphan (S ''records'')) iterate = Inr (xs @ orphan # ys)
      \<and> bind (getitem without (S ''records'')) iterate = Inr (xs @ ys)
    \<longrightarrow> process_page dir off with_orphan = process_page dir off without)"
  using unmatched_master_aborts[of ses alb offset w response w1 recs A pre m post rn fuel r]
    orphan_asset_dropped[of orphan ref xs ys with_orphan without dir off]
  by blast

text \<open>
  The page with a master record left alone aborts after one entity, with a handler
  registered; the first page of the library with the asset record \<open>A9\<close> of an absent
  master added yields the same two entities.
\<close>

theorem unmatched_master_aborts_orphan_asset_dropped_witness:
  "photos_loop (scripted 2 [PostReturns (Inr torn_page), page []]) (album ''ASCENDING'' (Some stubborn)) 2 0 0 0
     = ([Request (query_at ''ASCENDING'' 0),
         Yield (PhotoAsset (master_rec ''M1'' []) (asset_rec ''A1'' ''M1''))], Raise KeyError)
   \<and> process_page (S ''DESCENDING'') 4 padded_page = process_page (S ''DESCENDING'') 4 first_page
   \<and> process_page (S ''DESCENDING'') 4 padded_page
        = PageContinue 2 [PhotoAsset m5 a5, PhotoAsset m4 a4]"
proof -
  let ?ses = "scripted 2 [PostReturns (Inr torn_page), page []]"
  let ?alb = "album ''ASCENDING'' (Some stubborn)"
  let ?recs = "[master_rec ''M1'' [], asset_rec ''A1'' ''M1'', master_rec ''M2'' []]"
  let ?A = "[(JStr (S ''M1''), asset_rec ''A1'' ''M1'')]"
  have q: "photos_request ?ses ?alb 0 = query_at ''ASCENDING'' 0"
    by (simp add: photos_request_def query_at_def album_def)
  have fetch: "post_list ?ses (photos_request ?ses ?alb 0) 0 = (PostReturns (Inr torn_page), 1)"
    by (simp add: scripted_def)
  have it: "bind (getitem torn_page (S ''records'')) iterate = Inr ?recs"
    by (simp add: torn_page_def S_def)
  have recs: "page_records torn_page = Inr (?A, [master_rec ''M1'' []] @ master_rec ''M2'' [] # [])"
    by code_simp
  have pre: "\<forall>x \<in> set [master_rec ''M1'' []]. matched ?A x"
    by code_simp
  have rn: "getitem (master_rec ''M2'' []) (S ''recordName'') = Inr (JStr (S ''M2''))"
    "hashable (JStr (S ''M2''))"
    by (simp_all add: master_rec_def S_def)
  have none: "\<forall>a \<in> set ?recs. is_asset a \<longrightarrow>
      (\<forall>mid. master_ref a = Inr mid \<longrightarrow> py_key mid \<noteq> py_key (JStr (S ''M2'')))"
    by (simp add: is_asset_def master_ref_def master_rec_def asset_rec_def S_def)
  have ys: "fst (yield_entities ?A [master_rec ''M1'' []])
      = [PhotoAsset (master_rec ''M1'' []) (asset_rec ''A1'' ''M1'')]"
    by code_simp
  note t = unmatched_master_aborts_orphan_asset_dropped[of ?ses ?alb 0 0 torn_page 1 ?recs ?A
      "[master_rec ''M1'' []]" "master_rec ''M2'' []" "[]" "JStr (S ''M2'')" 1 0
      "asset_rec ''A9'' ''M9''" "JStr (S ''M9'')" "[m5, a5]" "[a4, m4]" padded_page first_page
      "S ''DESCENDING''" 4]
  from t fetch it recs pre rn none
  have "photos_loop ?ses ?alb (Suc 1) 0 0 0
          = (Request (photos_request ?ses ?alb 0)
               # map Yield (fst (yield_entities ?A [master_rec ''M1'' []])), Raise KeyError)"
    by blast
  then have a: "photos_loop ?ses ?alb 2 0 0 0
     = ([Request (query_at ''ASCENDING'' 0),
         Yield (PhotoAsset (master_rec ''M1'' []) (asset_rec ''A1'' ''M1''))], Raise KeyError)"
    using q ys by (simp add: eval_nat_numeral)
  have o1: "is_asset (asset_rec ''A9'' ''M9'')"
    "master_ref (asset_rec ''A9'' ''M9'') = Inr (JStr (S ''M9''))" "hashable (JStr (S ''M9''))"
    by (simp_all add: is_asset_def master_ref_def asset_rec_def S_def)
  have o2: "\<forall>x \<in> set ([m5, a5] @ [a4, m4]). is_master x \<longrightarrow>
      (\<forall>ident. getitem x (S ''recordName'') = Inr ident \<longrightarrow> py_key ident \<noteq> py_key (JStr (S ''M9'')))"
    by (simp add: is_master_def m5_def m4_def a5_def a4_def master_rec_def asset_rec_def S_def)
  have o3: "bind (getitem padded_page (S ''records'')) iterate
      = Inr ([m5, a5] @ asset_rec ''A9'' ''M9'' # [a4, m4])"
    "bind (getitem first_page (S ''records'')) iterate = Inr ([m5, a5] @ [a4, m4])"
    by (simp_all add: padded_page_def first_page_def S_def)
  from t o1 o2 o3
  have b: "process_page (S ''DESCENDING'') 4 padded_page = process_page (S ''DESCENDING'') 4 first_page"
    by blast
  have c: "process_page (S ''DESCENDING'') 4 padded_page
        = PageContinue 2 [PhotoAsset m5 a5, PhotoAsset m4 a4]"
    by code_simp
  from a b c show ?thesis by simp
qed

section \<open>Claims about the entity\<close>

text \<open>
  C5, as amended.  The video table has 3 entries and the photo table 6.  When the first
  access to \<open>versions\<close> of an entity returns, it returns a mapping whose keys are, in the
  order of the table, the version names of the table for the kind of the entity (the
  video table for \<open>movie\<close>, the photo table otherwise) whose field \<open>prefix + "Res"\<close> is
  in the master record, and no other key.  Each value is the version dict of one of
  these entries, in which \<open>width\<close>, \<open>height\<close> and \<open>type\<close> are \<open>None\<close> when the field they
  are read from is not in the record, and \<open>size\<close> and \<open>url\<close> are \<open>None\<close> when the \<open>Res\<close>
  entry is empty.  Such a missing field is no failure: the access returns whenever the
  kind and the file name of the entity can be read and every entry that is there and
  not empty has its value (for \<open>Res\<close>: its \<open>size\<close> and \<open>downloadURL\<close>).  But an entry of
  an included version that is there and not empty and has no value (for \<open>Res\<close>: no
  \<open>size\<close> or no \<open>downloadURL\<close>) is a failure: the access raises.
\<close>

theorem versions_resolution:
  "length VIDEO_VERSION_LOOKUP = 3 \<and> length PHOTO_VERSION_LOOKUP = 6
   \<and> (getitem m (S ''fields'') = Inr (JObj f) \<and> versions (PhotoAsset m a) = (Inr vs, e1)
      \<longrightarrow> (\<exists>kind d. item_type (PhotoAsset m a) = Inr kind \<and> vs = JObj d
            \<and> map fst d
                = map fst (filter (\<lambda>kp. snd kp @ S ''Res'' \<in> set (map fst f))
                    (if kind = S ''movie'' then VIDEO_VERSION_LOOKUP else PHOTO_VERSION_LOOKUP))
            \<and> (\<forall>kv \<in> set d. \<exists>prefix fn w h sz u ty.
                  (fst kv, prefix)
                    \<in> set (if kind = S ''movie'' then VIDEO_VERSION_LOOKUP else PHOTO_VERSION_LOOKUP)
                  \<and> prefix @ S ''Res'' \<in> set (map fst f)
                  \<and> snd kv = version_dict fn kind w h sz u ty
                  \<and> (prefix @ S ''Width'' \<notin> set (map fst f) \<longrightarrow> w = JNull)
                  \<and> (prefix @ S ''Height'' \<notin> set (map fst f) \<longrightarrow> h = JNull)
                  \<and> (prefix @ S ''FileType'' \<notin> set (map fst f) \<longrightarrow> ty = JNull)
                  \<and> (\<forall>x. map_of f (prefix @ S ''Res'') = Some x \<and> \<not> truthy x
                        \<longrightarrow> sz = JNull \<and> u = JNull))))
   \<and> (getitem m (S ''fields'') = Inr (JObj f) \<and> item_type (PhotoAsset m a) = Inr k
      \<and> filename (PhotoAsset m a) = Inr nm
      \<and> (\<forall>kp \<in> set (if k = S ''movie'' then VIDEO_VERSION_LOOKUP else PHOTO_VERSION_LOOKUP).
            \<forall>x. (map_of f (snd kp @ S ''Width'') = Some x \<or> map_of f (snd kp @ S ''Height'') = Some x
                  \<or> map_of f (snd kp @ S ''FileType'') = Some x) \<and> truthy x
                \<longrightarrow> (\<exists>y. getitem x (S ''value'') = Inr y))
      \<and> (\<forall>kp \<in> set (if k = S ''movie'' then VIDEO_VERSION_LOOKUP else PHOTO_VERSION_LOOKUP).
            \<forall>x. map_of f (snd kp @ S ''Res'') = Some x \<and> truthy x
                \<longrightarrow> (\<exists>sz u. path x [S ''value'', S ''size''] = Inr sz
                         \<and> path x [S ''value'', S ''downloadURL''] = Inr u))
      \<longrightarrow> (\<exists>vs' e1'. versions (PhotoAsset m a) = (Inr vs', e1')))
   \<and> (getitem m (S ''fields'') = Inr (JObj f) \<and> item_type (PhotoAsset m a) = Inr k
      \<and> (key, pre) \<in> set (if k = S ''movie'' then VIDEO_VERSION_LOOKUP else PHOTO_VERSION_LOOKUP)
      \<and> pre @ S ''Res'' \<in> set (map fst f) \<and> truthy x
      \<and> (((map_of f (pre @ S ''Width'') = Some x \<or> map_of f (pre @ S ''Height'') = Some x
              \<or> map_of f (pre @ S ''FileType'') = Some x)
            \<and> getitem x (S ''value'') = Inl err)
          \<or> (map_of f (pre @ S ''Res'') = Some x
              \<and> (path x [S ''value'', S ''size''] = Inl err
                  \<or> path x [S ''value'', S ''downloadURL''] = Inl err)))
      \<longrightarrow> (\<exists>err' e1'. versions (PhotoAsset m a) = (Inl err', e1')))"
proof -
  have 1: "length VIDEO_VERSION_LOOKUP = 3 \<and> length PHOTO_VERSION_LOOKUP = 6"
    by (simp add: VIDEO_VERSION_LOOKUP_def PHOTO_VERSION_LOOKUP_def)
  have 2: "getitem m (S ''fields'') = Inr (JObj f) \<and> versions (PhotoAsset m a) = (Inr vs, e1)
      \<longrightarrow> (\<exists>kind d. item_type (PhotoAsset m a) = Inr kind \<and> vs = JObj d
            \<and> map fst d
                = map fst (filter (\<lambda>kp. snd kp @ S ''Res'' \<in> set (map fst f))
                    (if kind = S ''movie'' then VIDEO_VERSION_LOOKUP else PHOTO_VERSION_LOOKUP))
            \<and> (\<forall>kv \<in> set d. \<exists>prefix fn w h sz u ty.
                  (fst kv, prefix)
                    \<in> set (if kind = S ''movie'' then VIDEO_VERSION_LOOKUP else PHOTO_VERSION_LOOKUP)
                  \<and> prefix @ S ''Res'' \<in> set (map fst f)
                  \<and> snd kv = version_dict fn kind w h sz u ty
                  \<and> (prefix @ S ''Width'' \<notin> set (map fst f) \<longrightarrow> w = JNull)
                  \<and> (prefix @ S ''Height'' \<notin> set (map fst f) \<longrightarrow> h = JNull)
                  \<and> (prefix @ S ''FileType'' \<notin> set (map fst f) \<longrightarrow> ty = JNull)
                  \<and> (\<forall>x. map_of f (prefix @ S ''Res'') = Some x \<and> \<not> truthy x
                        \<longrightarrow> sz = JNull \<and> u = JNull)))"
  proof
    assume a: "getitem m (S ''fields'') = Inr (JObj f) \<and> versions (PhotoAsset m a) = (Inr vs, e1)"
    then have f: "getitem m (S ''fields'') = Inr (JObj f)"
      and run: "versions (PhotoAsset m a) = (Inr vs, e1)" by simp_all
    let ?e = "PhotoAsset m a"
    have fe: "getitem (master_record ?e) (S ''fields'') = Inr (JObj f)"
      using f by (simp add: PhotoAsset_def)
    from versions_fresh[OF f run] obtain kind d where kind: "item_type ?e = Inr kind"
      and vs: "vs = JObj d"
      and all: "list_all2 (\<lambda>kv kp. fst kv = fst kp \<and> build_version ?e (snd kp) = Inr (snd kv))
                 d (filter (\<lambda>kp. snd kp @ S ''Res'' \<in> set (map fst f))
                      (if kind = S ''movie'' then VIDEO_VERSION_LOOKUP else PHOTO_VERSION_LOOKUP))"
      by blast
    let ?table = "if kind = S ''movie'' then VIDEO_VERSION_LOOKUP else PHOTO_VERSION_LOOKUP"
    have keys: "map fst d = map fst (filter (\<lambda>kp. snd kp @ S ''Res'' \<in> set (map fst f)) ?table)"
      using list_all2_fst[OF all] .
    have each: "\<forall>kv \<in> set d. \<exists>prefix fn w h sz u ty.
                  (fst kv, prefix) \<in> set ?table
                  \<and> prefix @ S ''Res'' \<in> set (map fst f)
                  \<and> snd kv = version_dict fn kind w h sz u ty
                  \<and> (prefix @ S ''Width'' \<notin> set (map fst f) \<longrightarrow> w = JNull)
                  \<and> (prefix @ S ''Height'' \<notin> set (map fst f) \<longrightarrow> h = JNull)
                  \<and> (prefix @ S ''FileType'' \<notin> set (map fst f) \<longrightarrow> ty = JNull)
                  \<and> (\<forall>x. map_of f (prefix @ S ''Res'') = Some x \<and> \<not> truthy x
                        \<longrightarrow> sz = JNull \<and> u = JNull)"
    proof
      fix kv assume "kv \<in> set d"
      from list_all2_member[OF all this] obtain kp where
        kpin: "kp \<in> set (filter (\<lambda>kp. snd kp @ S ''Res'' \<in> set (map fst f)) ?table)"
        and kpv: "fst kv = fst kp \<and> build_version ?e (snd kp) = Inr (snd kv)"
        by blast
      have kp: "kp \<in> set ?table" "snd kp @ S ''Res'' \<in> set (map fst f)" "fst kv = fst kp"
        and b: "build_version ?e (snd kp) = Inr (snd kv)"
        using kpin kpv by simp_all
      from build_version_shape[OF fe b] obtain fn kind' w h sz u ty where
        s: "item_type ?e = Inr kind'"
        "bind (py_get (JObj f) (snd kp @ S ''Width'')) entry_value = Inr w"
        "bind (py_get (JObj f) (snd kp @ S ''Height'')) entry_value = Inr h"
        "bind (py_get (JObj f) (snd kp @ S ''FileType'')) entry_value = Inr ty"
        "bind (py_get (JObj f) (snd kp @ S ''Res''))
          (\<lambda>r. if truthy r then path r [S ''value'', S ''size''] else Inr JNull) = Inr sz"
        "bind (py_get (JObj f) (snd kp @ S ''Res''))
          (\<lambda>r. if truthy r then path r [S ''value'', S ''downloadURL''] else Inr JNull) = Inr u"
        "snd kv = version_dict fn kind' w h sz u ty"
        by blast
      have k': "kind' = kind" using s(1) kind by simp
      have m: "(fst kv, snd kp) \<in> set ?table" using kp(1,3) by simp
      have n1: "snd kp @ S ''Width'' \<notin> set (map fst f) \<longrightarrow> w = JNull"
        using entry_value_absent[OF _ s(2)] by blast
      have n2: "snd kp @ S ''Height'' \<notin> set (map fst f) \<longrightarrow> h = JNull"
        using entry_value_absent[OF _ s(3)] by blast
      have n3: "snd kp @ S ''FileType'' \<notin> set (map fst f) \<longrightarrow> ty = JNull"
        using entry_value_absent[OF _ s(4)] by blast
      have n4: "\<forall>x. map_of f (snd kp @ S ''Res'') = Some x \<and> \<not> truthy x \<longrightarrow> sz = JNull \<and> u = JNull"
        using s(5,6) by auto
      from m kp(2) s(7) k' n1 n2 n3 n4
      show "\<exists>prefix fn w h sz u ty.
                  (fst kv, prefix) \<in> set ?table
                  \<and> prefix @ S ''Res'' \<in> set (map fst f)
                  \<and> snd kv = version_dict fn kind w h sz u ty
                  \<and> (prefix @ S ''Width'' \<notin> set (map fst f) \<longrightarrow> w = JNull)
                  \<and> (prefix @ S ''Height'' \<notin> set (map fst f) \<longrightarrow> h = JNull)
                  \<and> (prefix @ S ''FileType'' \<notin> set (map fst f) \<longrightarrow> ty = JNull)
                  \<and> (\<forall>x. map_of f (prefix @ S ''Res'') = Some x \<and> \<not> truthy x
                        \<longrightarrow> sz = JNull \<and> u = JNull)"
        by blast
    qed
    from kind vs keys each
    show "\<exists>kind d. item_type (PhotoAsset m a) = Inr kind \<and> vs = JObj d
            \<and> map fst d
                = map fst (filter (\<lambda>kp. snd kp @ S ''Res'' \<in> set (map fst f))
                    (if kind = S ''movie'' then VIDEO_VERSION_LOOKUP else PHOTO_VERSION_LOOKUP))
            \<and> (\<forall>kv \<in> set d. \<exists>prefix fn w h sz u ty.
                  (fst kv, prefix)
                    \<in> set (if kind = S ''movie'' then VIDEO_VERSION_LOOKUP else PHOTO_VERSION_LOOKUP)
                  \<and> prefix @ S ''Res'' \<in> set (map fst f)
                  \<and> snd kv = version_dict fn kind w h sz u ty
                  \<and> (prefix @ S ''Width'' \<notin> set (map fst f) \<longrightarrow> w = JNull)
                  \<and> (prefix @ S ''Height'' \<notin> set (map fst f) \<longrightarrow> h = JNull)
                  \<and> (prefix @ S ''FileType'' \<notin> set (map fst f) \<longrightarrow> ty = JNull)
                  \<and> (\<forall>x. map_of f (prefix @ S ''Res'') = Some x \<and> \<not> truthy x
                        \<longrightarrow> sz = JNull \<and> u = JNull))"
      by blast
  qed
  have 3: "getitem m (S ''fields'') = Inr (JObj f) \<and> item_type (PhotoAsset m a) = Inr k
      \<and> filename (PhotoAsset m a) = Inr nm
      \<and> (\<forall>kp \<in> set (if k = S ''movie'' then VIDEO_VERSION_LOOKUP else PHOTO_VERSION_LOOKUP).
            \<forall>x. (map_of f (snd kp @ S ''Width'') = Some x \<or> map_of f (snd kp @ S ''Height'') = Some x
                  \<or> map_of f (snd kp @ S ''FileType'') = Some x) \<and> truthy x
                \<longrightarrow> (\<exists>y. getitem x (S ''value'') = Inr y))
      \<and> (\<forall>kp \<in> set (if k = S ''movie'' then VIDEO_VERSION_LOOKUP else PHOTO_VERSION_LOOKUP).
            \<forall>x. map_of f (snd kp @ S ''Res'') = Some x \<and> truthy x
                \<longrightarrow> (\<exists>sz u. path x [S ''value'', S ''size''] = Inr sz
                         \<and> path x [S ''value'', S ''downloadURL''] = Inr u))
      \<longrightarrow> (\<exists>vs' e1'. versions (PhotoAsset m a) = (Inr vs', e1'))"
  proof
    let ?e = "PhotoAsset m a"
    let ?table = "if k = S ''movie'' then VIDEO_VERSION_LOOKUP else PHOTO_VERSION_LOOKUP"
    assume a: "getitem m (S ''fields'') = Inr (JObj f) \<and> item_type ?e = Inr k
      \<and> filename ?e = Inr nm
      \<and> (\<forall>kp \<in> set ?table.
            \<forall>x. (map_of f (snd kp @ S ''Width'') = Some x \<or> map_of f (snd kp @ S ''Height'') = Some x
                  \<or> map_of f (snd kp @ S ''FileType'') = Some x) \<and> truthy x
                \<longrightarrow> (\<exists>y. getitem x (S ''value'') = Inr y))
      \<and> (\<forall>kp \<in> set ?table.
            \<forall>x. map_of f (snd kp @ S ''Res'') = Some x \<and> truthy x
                \<longrightarrow> (\<exists>sz u. path x [S ''value'', S ''size''] = Inr sz
                         \<and> path x [S ''value'', S ''downloadURL''] = Inr u))"
    then have f: "getitem m (S ''fields'') = Inr (JObj f)" and k: "item_type ?e = Inr k"
      and n: "filename ?e = Inr nm" by simp_all
    have fe: "getitem (master_record ?e) (S ''fields'') = Inr (JObj f)"
      using f by (simp add: PhotoAsset_def)
    have "\<forall>kp \<in> set ?table. snd kp @ S ''Res'' \<in> set (map fst f)
               \<longrightarrow> (\<exists>v. build_version ?e (snd kp) = Inr v)"
    proof (intro ballI impI)
      fix kp assume kp: "kp \<in> set ?table"
      have ok: "\<And>x. (map_of f (snd kp @ S ''Width'') = Some x \<or> map_of f (snd kp @ S ''Height'') = Some x
                  \<or> map_of f (snd kp @ S ''FileType'') = Some x) \<Longrightarrow> truthy x
              \<Longrightarrow> \<exists>y. getitem x (S ''value'') = Inr y"
        using a kp by blast
      have res: "\<And>x. map_of f (snd kp @ S ''Res'') = Some x \<Longrightarrow> truthy x
              \<Longrightarrow> \<exists>sz u. path x [S ''value'', S ''size''] = Inr sz
                       \<and> path x [S ''value'', S ''downloadURL''] = Inr u"
        using a kp by blast
      show "\<exists>v. build_version ?e (snd kp) = Inr v"
        using build_version_succeeds[OF fe n k ok res] by blast
    qed
    from versions_succeeds[OF f k this]
    show "\<exists>vs' e1'. versions ?e = (Inr vs', e1')" .
  qed
  have 4: "getitem m (S ''fields'') = Inr (JObj f) \<and> item_type (PhotoAsset m a) = Inr k
      \<and> (key, pre) \<in> set (if k = S ''movie'' then VIDEO_VERSION_LOOKUP else PHOTO_VERSION_LOOKUP)
      \<and> pre @ S ''Res'' \<in> set (map fst f) \<and> truthy x
      \<and> (((map_of f (pre @ S ''Width'') = Some x \<or> map_of f (pre @ S ''Height'') = Some x
              \<or> map_of f (pre @ S ''FileType'') = Some x)
            \<and> getitem x (S ''value'') = Inl err)
          \<or> (map_of f (pre @ S ''Res'') = Some x
              \<and> (path x [S ''value'', S ''size''] = Inl err
                  \<or> path x [S ''value'', S ''downloadURL''] = Inl err)))
      \<longrightarrow> (\<exists>err' e1'. versions (PhotoAsset m a) = (Inl err', e1'))"
  proof
    let ?e = "PhotoAsset m a"
    let ?table = "if k = S ''movie'' then VIDEO_VERSION_LOOKUP else PHOTO_VERSION_LOOKUP"
    assume a: "getitem m (S ''fields'') = Inr (JObj f) \<and> item_type ?e = Inr k
      \<and> (key, pre) \<in> set ?table
      \<and> pre @ S ''Res'' \<in> set (map fst f) \<and> truthy x
      \<and> (((map_of f (pre @ S ''Width'') = Some x \<or> map_of f (pre @ S ''Height'') = Some x
              \<or> map_of f (pre @ S ''FileType'') = Some x)
            \<and> getitem x (S ''value'') = Inl err)
          \<or> (map_of f (pre @ S ''Res'') = Some x
              \<and> (path x [S ''value'', S ''size''] = Inl err
                  \<or> path x [S ''value'', S ''downloadURL''] = Inl err)))"
    then have f: "getitem m (S ''fields'') = Inr (JObj f)" and k: "item_type ?e = Inr k"
      and kp: "(key, pre) \<in> set ?table" and res: "pre @ S ''Res'' \<in> set (map fst f)"
      and t: "truthy x"
      and bad: "((map_of f (pre @ S ''Width'') = Some x \<or> map_of f (pre @ S ''Height'') = Some x
              \<or> map_of f (pre @ S ''FileType'') = Some x)
            \<and> getitem x (S ''value'') = Inl err)
          \<or> (map_of f (pre @ S ''Res'') = Some x
              \<and> (path x [S ''value'', S ''size''] = Inl err
                  \<or> path x [S ''value'', S ''downloadURL''] = Inl err))"
      by simp_all
    have fe: "getitem (master_record ?e) (S ''fields'') = Inr (JObj f)"
      using f by (simp add: PhotoAsset_def)
    obtain r e1 where run: "versions ?e = (r, e1)" by (cases "versions ?e")
    show "\<exists>err' e1'. versions ?e = (Inl err', e1')"
    proof (cases r)
      case (Inl err')
      then show ?thesis using run by blast
    next
      case (Inr vs)
      then have run': "versions ?e = (Inr vs, e1)" using run by simp
      from versions_fresh[OF f run'] obtain kind d where kind: "item_type ?e = Inr kind"
        and all: "list_all2 (\<lambda>kv kp. fst kv = fst kp \<and> build_version ?e (snd kp) = Inr (snd kv))
                 d (filter (\<lambda>kp. snd kp @ S ''Res'' \<in> set (map fst f))
                      (if kind = S ''movie'' then VIDEO_VERSION_LOOKUP else PHOTO_VERSION_LOOKUP))"
        by blast
      have kk: "kind = k" using kind k by simp
      have "(key, pre) \<in> set (filter (\<lambda>kp. snd kp @ S ''Res'' \<in> set (map fst f))
                      (if kind = S ''movie'' then VIDEO_VERSION_LOOKUP else PHOTO_VERSION_LOOKUP))"
        unfolding kk using kp res by simp
      from list_all2_member2[OF all this] obtain kv where
        b: "build_version ?e pre = Inr (snd kv)" by auto
      from build_version_shape[OF fe b] obtain w h sz u ty where
        s: "bind (py_get (JObj f) (pre @ S ''Width'')) entry_value = Inr w"
        "bind (py_get (JObj f) (pre @ S ''Height'')) entry_value = Inr h"
        "bind (py_get (JObj f) (pre @ S ''FileType'')) entry_value = Inr ty"
        "bind (py_get (JObj f) (pre @ S ''Res''))
          (\<lambda>r. if truthy r then path r [S ''value'', S ''size''] else Inr JNull) = Inr sz"
        "bind (py_get (JObj f) (pre @ S ''Res''))
          (\<lambda>r. if truthy r then path r [S ''value'', S ''downloadURL''] else Inr JNull) = Inr u"
        by blast
      from bad s t have False
        by (elim disjE conjE) (simp_all add: entry_value_def)
      then show ?thesis ..
    qed
  qed
  from 1 have lv: "length VIDEO_VERSION_LOOKUP = 3" and lp: "length PHOTO_VERSION_LOOKUP = 6"
    by simp_all
  show ?thesis by (rule conjI[OF lv conjI[OF lp conjI[OF 2 conjI[OF 3 4]]]])
qed

text \<open>
  The live photo has \<open>resOriginalRes\<close> and \<open>resOriginalVidComplRes\<close> only: its versions
  are \<open>original\<close> and \<open>originalVideo\<close>, with \<open>None\<close> for the heights and for the width
  and the type that the record does not have, and no \<open>medium\<close> or \<open>thumb\<close> key.  The
  record whose \<open>resJPEGMedRes\<close> has no size makes the access raise.
\<close>

theorem versions_resolution_witness:
  "fst (versions (PhotoAsset live_photo JNull)) = Inr live_versions
   \<and> (\<exists>d. live_versions = JObj d \<and> map fst d = [S ''original'', S ''originalVideo''])
   \<and> (\<exists>err e1. versions (PhotoAsset sizeless JNull) = (Inl err, e1))"
proof -
  let ?e = "PhotoAsset live_photo JNull"
  have f: "getitem live_photo (S ''fields'') = Inr (JObj live_fields)"
    by (simp add: live_photo_def master_rec_def S_def)
  have k: "item_type ?e = Inr (S ''image'')" by code_simp
  have n: "filename ?e = Inr (S ''IMG_0001.HEIC'')" by code_simp
  have t: "(if S ''image'' = S ''movie'' then VIDEO_VERSION_LOOKUP else PHOTO_VERSION_LOOKUP)
      = PHOTO_VERSION_LOOKUP" by (simp add: S_def)
  have h1: "\<forall>kp \<in> set (if S ''image'' = S ''movie'' then VIDEO_VERSION_LOOKUP else PHOTO_VERSION_LOOKUP).
            \<forall>x. (map_of live_fields (snd kp @ S ''Width'') = Some x
                  \<or> map_of live_fields (snd kp @ S ''Height'') = Some x
                  \<or> map_of live_fields (snd kp @ S ''FileType'') = Some x) \<and> truthy x
                \<longrightarrow> (\<exists>y. getitem x (S ''value'') = Inr y)"
    unfolding t by (simp add: PHOTO_VERSION_LOOKUP_def live_fields_def res_entry_def S_def)
  have h2: "\<forall>kp \<in> set (if S ''image'' = S ''movie'' then VIDEO_VERSION_LOOKUP else PHOTO_VERSION_LOOKUP).
            \<forall>x. map_of live_fields (snd kp @ S ''Res'') = Some x \<and> truthy x
                \<longrightarrow> (\<exists>sz u. path x [S ''value'', S ''size''] = Inr sz
                         \<and> path x [S ''value'', S ''downloadURL''] = Inr u)"
    unfolding t by (simp add: PHOTO_VERSION_LOOKUP_def live_fields_def res_entry_def S_def)
  note inst = versions_resolution[of live_photo live_fields JNull _ _ "S ''image''" "S ''IMG_0001.HEIC''"]
  note hyp = conjI[OF f conjI[OF k conjI[OF n conjI[OF h1 h2]]]]
  note ex = inst[THEN conjunct2, THEN conjunct2, THEN conjunct2, THEN conjunct1, THEN mp, OF hyp]
  from ex obtain vs e1 where run: "versions ?e = (Inr vs, e1)" by (elim exE)
  note keys = versions_resolution[of live_photo live_fields JNull vs e1,
      THEN conjunct2, THEN conjunct2, THEN conjunct1, THEN mp, OF conjI[OF f run]]
  from keys obtain kind d where kd: "item_type ?e = Inr kind" "vs = JObj d"
    "map fst d = map fst (filter (\<lambda>kp. snd kp @ S ''Res'' \<in> set (map fst live_fields))
                    (if kind = S ''movie'' then VIDEO_VERSION_LOOKUP else PHOTO_VERSION_LOOKUP))"
    by (elim exE conjE) (rule that)
  have kind: "kind = S ''image''" using kd(1) unfolding k by simp
  have keys: "map fst d = [S ''original'', S ''originalVideo'']"
    unfolding kd(3) kind t
    by (simp add: PHOTO_VERSION_LOOKUP_def live_fields_def S_def)
  have v: "fst (versions ?e) = Inr live_versions" by code_simp
  have "vs = live_versions" using v unfolding run by simp
  then have "live_versions = JObj d" using kd(2) by (simp only:)
  then have live: "\<exists>d. live_versions = JObj d \<and> map fst d = [S ''original'', S ''originalVideo'']"
    using keys by (intro exI[of _ d] conjI)
  let ?x = "JObj [(S ''value'', JObj [(S ''downloadURL'', JStr (S ''https://x/3''))])]"
  have f': "getitem sizeless (S ''fields'') = Inr (JObj sizeless_fields)"
    by (simp add: sizeless_def master_rec_def S_def)
  have k': "item_type (PhotoAsset sizeless JNull) = Inr (S ''image'')" by code_simp
  have kp: "(S ''medium'', S ''resJPEGMed'')
      \<in> set (if S ''image'' = S ''movie'' then VIDEO_VERSION_LOOKUP else PHOTO_VERSION_LOOKUP)"
    unfolding t by (simp add: PHOTO_VERSION_LOOKUP_def)
  have res: "S ''resJPEGMed'' @ S ''Res'' \<in> set (map fst sizeless_fields)"
    by (simp add: sizeless_fields_def S_def)
  have tx: "truthy ?x" by simp
  have bad: "((map_of sizeless_fields (S ''resJPEGMed'' @ S ''Width'') = Some ?x
              \<or> map_of sizeless_fields (S ''resJPEGMed'' @ S ''Height'') = Some ?x
              \<or> map_of sizeless_fields (S ''resJPEGMed'' @ S ''FileType'') = Some ?x)
            \<and> getitem ?x (S ''value'') = Inl KeyError)
          \<or> (map_of sizeless_fields (S ''resJPEGMed'' @ S ''Res'') = Some ?x
              \<and> (path ?x [S ''value'', S ''size''] = Inl KeyError
                  \<or> path ?x [S ''value'', S ''downloadURL''] = Inl KeyError))"
    by (simp add: sizeless_fields_def S_def)
  note hyp4 = conjI[OF f' conjI[OF k' conjI[OF kp conjI[OF res conjI[OF tx bad]]]]]
  note raises = versions_resolution[where m = sizeless and f = sizeless_fields and a = JNull
      and k = "S ''image''" and key = "S ''medium''" and pre = "S ''resJPEGMed''"
      and x = ?x and err = KeyError,
      THEN conjunct2, THEN conjunct2, THEN conjunct2, THEN conjunct2, THEN mp, OF hyp4]
  show ?thesis by (rule conjI[OF v conjI[OF live raises]])
qed

text \<open>
  C5 as stated fails: a \<open>Res\<close> entry that is there, with a download URL and no size,
  gives no \<open>None\<close> for the size: the access raises \<open>KeyError\<close>.  And the next access
  returns the versions stored before the failure, a mapping without the key \<open>medium\<close>
  although \<open>resJPEGMedRes\<close> is in the master record.
\<close>

theorem versions_missing_size_raises:
  "fst (versions (PhotoAsset sizeless JNull)) = Inl KeyError
   \<and> fst (versions (snd (versions (PhotoAsset sizeless JNull))))
       = Inr (JObj [(S ''original'', still_version)])
   \<and> S ''resJPEGMedRes'' \<in> set (map fst sizeless_fields)"
  by code_simp

text \<open>
  C6, as amended.  In the versions a first access returns, for an entity with file name
  \<open>fn\<close>: when the kind is \<open>image\<close> and the \<open>type\<close> of a version is
  \<open>com.apple.quicktime-movie\<close>, the file name of the version is \<open>stem_HEVC.MOV\<close> when
  \<open>fn\<close> is \<open>stem\<close> followed by \<open>.heic\<close> in any case, and \<open>stem.MOV\<close> when \<open>fn\<close> is
  \<open>stem.x\<close> for any other extension \<open>x\<close> (not empty, without a dot); a file name without
  an extension is kept.  Versions of another type, and all versions of entities of
  another kind, keep \<open>fn\<close>.
\<close>

theorem version_filename_rewrite:
  "getitem m (S ''fields'') = Inr (JObj f) \<and> versions (PhotoAsset m a) = (Inr (JObj d), e1)
   \<and> (key, v) \<in> set d \<and> filename (PhotoAsset m a) = Inr fn
   \<and> item_type (PhotoAsset m a) = Inr kind \<and> getitem v (S ''type'') = Inr ty
   \<longrightarrow>
     (kind = S ''image'' \<and> ty = JStr (S ''com.apple.quicktime-movie'')
        \<and> fn = stem @ x \<and> lower x = S ''.heic''
      \<longrightarrow> getitem v (S ''filename'') = Inr (JStr (stem @ S ''_HEVC.MOV'')))
   \<and> (kind = S ''image'' \<and> ty = JStr (S ''com.apple.quicktime-movie'')
        \<and> \<not> endswith (S ''.heic'') (lower fn)
        \<and> fn = stem @ S ''.'' @ x \<and> x \<noteq> [] \<and> of_char CHR ''.'' \<notin> set x
      \<longrightarrow> getitem v (S ''filename'') = Inr (JStr (stem @ S ''.MOV'')))
   \<and> (kind = S ''image'' \<and> ty = JStr (S ''com.apple.quicktime-movie'')
        \<and> (fn = [] \<or> last fn = of_char CHR ''.'' \<or> of_char CHR ''.'' \<notin> set fn)
      \<longrightarrow> getitem v (S ''filename'') = Inr (JStr fn))
   \<and> (kind \<noteq> S ''image'' \<or> ty \<noteq> JStr (S ''com.apple.quicktime-movie'')
      \<longrightarrow> getitem v (S ''filename'') = Inr (JStr fn))"
proof
  assume a: "getitem m (S ''fields'') = Inr (JObj f) \<and> versions (PhotoAsset m a) = (Inr (JObj d), e1)
   \<and> (key, v) \<in> set d \<and> filename (PhotoAsset m a) = Inr fn
   \<and> item_type (PhotoAsset m a) = Inr kind \<and> getitem v (S ''type'') = Inr ty"
  then have name: "getitem v (S ''filename'')
     = Inr (JStr (if kind = S ''image'' \<and> ty = JStr (S ''com.apple.quicktime-movie'')
                  then (if endswith (S ''.heic'') (lower fn)
                        then sub_ext (S ''_HEVC.MOV'') fn
                        else sub_ext (S ''.MOV'') fn)
                  else fn))"
    using version_filename[of m f a d e1 key v fn kind ty] by blast
  have dot: "of_char CHR ''.'' = (46::nat)" "S ''.'' = [46]" by (simp_all add: S_def)
  have 1: "kind = S ''image'' \<and> ty = JStr (S ''com.apple.quicktime-movie'')
        \<and> fn = stem @ x \<and> lower x = S ''.heic''
      \<longrightarrow> getitem v (S ''filename'') = Inr (JStr (stem @ S ''_HEVC.MOV''))"
  proof
    assume h: "kind = S ''image'' \<and> ty = JStr (S ''com.apple.quicktime-movie'')
        \<and> fn = stem @ x \<and> lower x = S ''.heic''"
    then have e: "endswith (S ''.heic'') (lower fn)" using endswith_lower_heic by blast
    from h obtain y where y: "x = 46 # y" "y \<noteq> []" "46 \<notin> set y" using lower_heic by blast
    have "sub_ext (S ''_HEVC.MOV'') fn = stem @ S ''_HEVC.MOV''"
      using h y sub_ext_replaces[OF y(2,3)] by simp
    then show "getitem v (S ''filename'') = Inr (JStr (stem @ S ''_HEVC.MOV''))"
      using name h e by simp
  qed
  have 2: "kind = S ''image'' \<and> ty = JStr (S ''com.apple.quicktime-movie'')
        \<and> \<not> endswith (S ''.heic'') (lower fn)
        \<and> fn = stem @ S ''.'' @ x \<and> x \<noteq> [] \<and> of_char CHR ''.'' \<notin> set x
      \<longrightarrow> getitem v (S ''filename'') = Inr (JStr (stem @ S ''.MOV''))"
  proof
    assume h: "kind = S ''image'' \<and> ty = JStr (S ''com.apple.quicktime-movie'')
        \<and> \<not> endswith (S ''.heic'') (lower fn)
        \<and> fn = stem @ S ''.'' @ x \<and> x \<noteq> [] \<and> of_char CHR ''.'' \<notin> set x"
    then have c: "kind = S ''image''" "ty = JStr (S ''com.apple.quicktime-movie'')"
      "\<not> endswith (S ''.heic'') (lower fn)" by blast+
    from h have "fn = stem @ S ''.'' @ x" "x \<noteq> []" "of_char CHR ''.'' \<notin> set x" by blast+
    then have x: "x \<noteq> []" "46 \<notin> set x" and fn: "fn = stem @ 46 # x" using dot by simp_all
    have "getitem v (S ''filename'') = Inr (JStr (sub_ext (S ''.MOV'') fn))"
      using name c by simp
    then show "getitem v (S ''filename'') = Inr (JStr (stem @ S ''.MOV''))"
      unfolding fn using sub_ext_replaces[OF x] by simp
  qed
  have 3: "kind = S ''image'' \<and> ty = JStr (S ''com.apple.quicktime-movie'')
        \<and> (fn = [] \<or> last fn = of_char CHR ''.'' \<or> of_char CHR ''.'' \<notin> set fn)
      \<longrightarrow> getitem v (S ''filename'') = Inr (JStr fn)"
  proof
    assume h: "kind = S ''image'' \<and> ty = JStr (S ''com.apple.quicktime-movie'')
        \<and> (fn = [] \<or> last fn = of_char CHR ''.'' \<or> of_char CHR ''.'' \<notin> set fn)"
    then have "fn = [] \<or> last fn = 46 \<or> 46 \<notin> set fn" using dot by simp
    then have "sub_ext (S ''_HEVC.MOV'') fn = fn" "sub_ext (S ''.MOV'') fn = fn"
      using sub_ext_unchanged by blast+
    then show "getitem v (S ''filename'') = Inr (JStr fn)" using name by simp
  qed
  have 4: "kind \<noteq> S ''image'' \<or> ty \<noteq> JStr (S ''com.apple.quicktime-movie'')
      \<longrightarrow> getitem v (S ''filename'') = Inr (JStr fn)"
    using name by auto
  from 1 2 3 4 show "(kind = S ''image'' \<and> ty = JStr (S ''com.apple.quicktime-movie'')
        \<and> fn = stem @ x \<and> lower x = S ''.heic''
      \<longrightarrow> getitem v (S ''filename'') = Inr (JStr (stem @ S ''_HEVC.MOV'')))
   \<and> (kind = S ''image'' \<and> ty = JStr (S ''com.apple.quicktime-movie'')
        \<and> \<not> endswith (S ''.heic'') (lower fn)
        \<and> fn = stem @ S ''.'' @ x \<and> x \<noteq> [] \<and> of_char CHR ''.'' \<notin> set x
      \<longrightarrow> getitem v (S ''filename'') = Inr (JStr (stem @ S ''.MOV'')))
   \<and> (kind = S ''image'' \<and> ty = JStr (S ''com.apple.quicktime-movie'')
        \<and> (fn = [] \<or> last fn = of_char CHR ''.'' \<or> of_char CHR ''.'' \<notin> set fn)
      \<longrightarrow> getitem v (S ''filename'') = Inr (JStr fn))
   \<and> (kind \<noteq> S ''image'' \<or> ty \<noteq> JStr (S ''com.apple.quicktime-movie'')
      \<longrightarrow> getitem v (S ''filename'') = Inr (JStr fn))"
    by blast
qed

text \<open>
  The motion component of the live photo \<open>IMG_0001.HEIC\<close> is \<open>IMG_0001_HEVC.MOV\<close>, its
  still image keeps the name, and the motion component of \<open>IMG_0002.JPG\<close> is
  \<open>IMG_0002.MOV\<close>.
\<close>

theorem version_filename_rewrite_witness:
  "getitem live_video (S ''filename'') = Inr (JStr (S ''IMG_0001_HEVC.MOV''))
   \<and> getitem live_original (S ''filename'') = Inr (JStr (S ''IMG_0001.HEIC''))
   \<and> getitem (motion_version ''IMG_0002.MOV'') (S ''filename'') = Inr (JStr (S ''IMG_0002.MOV''))
   \<and> fst (versions (PhotoAsset live_photo JNull)) = Inr live_versions
   \<and> fst (versions (PhotoAsset jpeg_name JNull))
       = Inr (JObj [(S ''mediumVideo'', motion_version ''IMG_0002.MOV'')])"
proof -
  let ?e = "PhotoAsset live_photo JNull"
  let ?d = "[(S ''original'', live_original), (S ''originalVideo'', live_video)]"
  have f: "getitem live_photo (S ''fields'') = Inr (JObj live_fields)"
    by (simp add: live_photo_def master_rec_def S_def)
  have v: "fst (versions ?e) = Inr live_versions" by code_simp
  obtain e1 where run: "versions ?e = (Inr (JObj ?d), e1)"
    using v unfolding live_versions_def by (cases "versions ?e") simp
  have k: "item_type ?e = Inr (S ''image'')" by code_simp
  have n: "filename ?e = Inr (S ''IMG_0001.HEIC'')" by code_simp
  have m1: "(S ''originalVideo'', live_video) \<in> set ?d" "(S ''original'', live_original) \<in> set ?d"
    by simp_all
  have t1: "getitem live_video (S ''type'') = Inr (JStr (S ''com.apple.quicktime-movie''))"
    "getitem live_original (S ''type'') = Inr JNull"
    by (simp_all add: live_video_def live_original_def S_def)
  have s1: "S ''IMG_0001.HEIC'' = S ''IMG_0001'' @ S ''.HEIC''" "lower (S ''.HEIC'') = S ''.heic''"
    by (simp_all add: S_def lower_def)
  note a = version_filename_rewrite[of live_photo live_fields JNull ?d e1 "S ''originalVideo''"
      live_video "S ''IMG_0001.HEIC''" "S ''image''" "JStr (S ''com.apple.quicktime-movie'')"
      "S ''IMG_0001''" "S ''.HEIC''", THEN mp,
      OF conjI[OF f conjI[OF run conjI[OF m1(1) conjI[OF n conjI[OF k t1(1)]]]]]]
  have 1: "getitem live_video (S ''filename'') = Inr (JStr (S ''IMG_0001_HEVC.MOV''))"
  proof -
    from a[THEN conjunct1] s1
    have "getitem live_video (S ''filename'') = Inr (JStr (S ''IMG_0001'' @ S ''_HEVC.MOV''))"
      by blast
    then show ?thesis by (simp add: S_def)
  qed
  note b = version_filename_rewrite[of live_photo live_fields JNull ?d e1 "S ''original''"
      live_original "S ''IMG_0001.HEIC''" "S ''image''" JNull, THEN mp,
      OF conjI[OF f conjI[OF run conjI[OF m1(2) conjI[OF n conjI[OF k t1(2)]]]]]]
  have 2: "getitem live_original (S ''filename'') = Inr (JStr (S ''IMG_0001.HEIC''))"
    using b[THEN conjunct2, THEN conjunct2, THEN conjunct2] by simp
  let ?j = "PhotoAsset jpeg_name JNull"
  let ?jf = "[(S ''itemType'', JObj [(S ''value'', JStr (S ''public.jpeg''))]),
        (S ''filenameEnc'', JObj [(S ''value'', JStr (S ''SU1HXzAwMDIuSlBH''))]),
        (S ''resVidMedRes'', res_entry 200 ''https://x/2''),
        (S ''resVidMedFileType'',
           JObj [(S ''value'', JStr (S ''com.apple.quicktime-movie''))])]"
  let ?jd = "[(S ''mediumVideo'', motion_version ''IMG_0002.MOV'')]"
  have jf: "getitem jpeg_name (S ''fields'') = Inr (JObj ?jf)"
    by (simp add: jpeg_name_def motion_def master_rec_def S_def)
  have jv: "fst (versions ?j) = Inr (JObj ?jd)" by code_simp
  obtain j1 where jrun: "versions ?j = (Inr (JObj ?jd), j1)"
    using jv by (cases "versions ?j") simp
  have jk: "item_type ?j = Inr (S ''image'')" by code_simp
  have jn: "filename ?j = Inr (S ''IMG_0002.JPG'')" by code_simp
  have jm: "(S ''mediumVideo'', motion_version ''IMG_0002.MOV'') \<in> set ?jd" by simp
  have jt: "getitem (motion_version ''IMG_0002.MOV'') (S ''type'')
      = Inr (JStr (S ''com.apple.quicktime-movie''))"
    by (simp add: motion_version_def S_def)
  have js: "\<not> endswith (S ''.heic'') (lower (S ''IMG_0002.JPG''))"
    "S ''IMG_0002.JPG'' = S ''IMG_0002'' @ S ''.'' @ S ''JPG''" "S ''JPG'' \<noteq> []"
    "of_char CHR ''.'' \<notin> set (S ''JPG'')"
    by (simp_all add: S_def lower_def endswith_def)
  note c = version_filename_rewrite[of jpeg_name ?jf JNull ?jd j1 "S ''mediumVideo''"
      "motion_version ''IMG_0002.MOV''" "S ''IMG_0002.JPG''" "S ''image''"
      "JStr (S ''com.apple.quicktime-movie'')" "S ''IMG_0002''" "S ''JPG''", THEN mp,
      OF conjI[OF jf conjI[OF jrun conjI[OF jm conjI[OF jn conjI[OF jk jt]]]]]]
  have 3: "getitem (motion_version ''IMG_0002.MOV'') (S ''filename'') = Inr (JStr (S ''IMG_0002.MOV''))"
  proof -
    from c[THEN conjunct2, THEN conjunct1] js
    have "getitem (motion_version ''IMG_0002.MOV'') (S ''filename'')
        = Inr (JStr (S ''IMG_0002'' @ S ''.MOV''))"
      by blast
    then show ?thesis by (simp add: S_def)
  qed
  from 1 2 3 v jv show ?thesis by (intro conjI)
qed

text \<open>
  C6 as stated fails: the image \<open>IMG_0001\<close>, a name without an extension, has a version
  of type \<open>com.apple.quicktime-movie\<close> whose file name is still \<open>IMG_0001\<close>, not a name
  that ends in \<open>.MOV\<close>.
\<close>

theorem version_filename_keeps_bare_name:
  "filename (PhotoAsset bare_name JNull) = Inr (S ''IMG_0001'')
   \<and> item_type (PhotoAsset bare_name JNull) = Inr (S ''image'')
   \<and> fst (versions (PhotoAsset bare_name JNull))
       = Inr (JObj [(S ''mediumVideo'', motion_version ''IMG_0001'')])
   \<and> getitem (motion_version ''IMG_0001'') (S ''type'')
       = Inr (JStr (S ''com.apple.quicktime-movie''))
   \<and> getitem (motion_version ''IMG_0001'') (S ''filename'') = Inr (JStr (S ''IMG_0001''))"
  by code_simp



text \<open>
  C8 fails on the code.  An entity whose master record has no rendition resolves to the
  empty mapping, which \<open>if not self._versions\<close> takes for "not computed yet": the next
  access computes again (here it sees the record that was changed in between, where a
  memo would have returned the empty mapping).  And an access that raises leaves the
  versions built so far in \<open>_versions\<close>: the next access returns that partial mapping.
\<close>

theorem versions_recomputed_when_empty:
  "versions (PhotoAsset nameless JNull)
     = (Inr (JObj []), (PhotoAsset nameless JNull)\<lparr>versions_attr := JObj []\<rparr>)
   \<and> fst (versions ((PhotoAsset nameless JNull)\<lparr>versions_attr := JObj [], master_record := bare_name\<rparr>))
       = Inr (JObj [(S ''mediumVideo'', motion_version ''IMG_0001'')])
   \<and> fst (versions (PhotoAsset broken_medium JNull)) = Inl KeyError
   \<and> fst (versions (snd (versions (PhotoAsset broken_medium JNull))))
       = Inr (JObj [(S ''original'', still_version)])"
  by code_simp

text \<open>
  C9.  A name value that contains \<open>.png\<close>, \<open>.dng\<close>, \<open>.mp4\<close> or \<open>.gif\<close> anywhere
  (\<open>s = a @ ext @ b\<close>) is returned unchanged and is not base64-decoded.
\<close>

theorem filename_verbatim_on_containment:
  assumes "path (master_record e) [S ''fields'', S ''filenameEnc'', S ''value''] = Inr (JStr s)"
    and "ext \<in> {S ''.png'', S ''.dng'', S ''.mp4'', S ''.gif''}"
    and "s = a @ ext @ b"
  shows "filename e = Inr s"
proof -
  have "substring ext s" using assms(3) substring_iff by blast
  then have "substring (S ''.png'') s \<or> substring (S ''.dng'') s \<or> substring (S ''.mp4'') s
         \<or> substring (S ''.gif'') s"
    using assms(2) by auto
  then show ?thesis using filename_present[OF assms(1)] by simp
qed


text \<open>
  The value \<open>QULC.pngw\<close> is returned as it is, although decoding it would give a name.
\<close>

theorem filename_verbatim_on_containment_witness:
  "filename (PhotoAsset (named_record (S ''QULC.pngw'')) JNull) = Inr (S ''QULC.pngw'')
   \<and> bind (b64decode (S ''QULC.pngw'')) utf8_decode = Inr [65, 66, 166, 120, 48]"
proof -
  have p: "path (master_record (PhotoAsset (named_record (S ''QULC.pngw'')) JNull))
         [S ''fields'', S ''filenameEnc'', S ''value''] = Inr (JStr (S ''QULC.pngw''))"
    by (simp add: PhotoAsset_def named_record_def master_rec_def S_def)
  have x: "S ''.png'' \<in> {S ''.png'', S ''.dng'', S ''.mp4'', S ''.gif''}" by simp
  have d: "S ''QULC.pngw'' = S ''QULC'' @ S ''.png'' @ S ''w''" by (simp add: S_def)
  have "bind (b64decode (S ''QULC.pngw'')) utf8_decode = Inr [65, 66, 166, 120, 48]"
    by (simp add: S_def b64decode_def b64_value_def cont_def)
  then show ?thesis using filename_verbatim_on_containment[OF p x d] by simp
qed

text \<open>
  C10.  When the versions of an entity resolve to a mapping that has no key \<open>version\<close>,
  \<open>download\<close> returns \<open>None\<close>: it neither raises nor hands a url to \<open>session.get\<close>.
\<close>

theorem download_unknown_version:
  assumes "versions e = (Inr (JObj d), e1)" and "version \<notin> set (map fst d)"
  shows "download e version = (ReturnNone, e1)"
  using assms by (simp add: download_def)

text \<open>
  A live photo has no \<open>medium\<close> version.
\<close>

theorem download_unknown_version_witness:
  "fst (download (PhotoAsset live_photo (asset_rec ''A'' ''AbC-12/x+yz0123456'')) (S ''medium''))
     = ReturnNone"
proof -
  let ?e = "PhotoAsset live_photo (asset_rec ''A'' ''AbC-12/x+yz0123456'')"
  obtain r e1 where v: "versions ?e = (r, e1)" by (cases "versions ?e")
  have "case fst (versions ?e) of Inr (JObj d) \<Rightarrow> S ''medium'' \<notin> set (map fst d) | _ \<Rightarrow> False"
    by code_simp
  then obtain d where "versions ?e = (Inr (JObj d), e1)" and k: "S ''medium'' \<notin> set (map fst d)"
    using v by (auto split: sum.splits json.splits)
  from download_unknown_version[OF this] show ?thesis by simp
qed

end
